theory Spec2Isabelle
  imports Complex_Main
begin

section \<open>The arithmetic of \<^verbatim>\<open>double\<close>\<close>

text \<open>
  Every number of \<^verbatim>\<open>navigator.cpp\<close> is a C++ \<^verbatim>\<open>double\<close>. The controller is embedded
  once, over an arithmetic that is a parameter: the operations the source applies to doubles
  (literals, \<^verbatim>\<open>M_PI\<close>, unary minus, \<^verbatim>\<open>+\<close>, \<^verbatim>\<open>-\<close>, \<^verbatim>\<open>*\<close>, \<^verbatim>\<open><\<close>, \<^verbatim>\<open>std::sqrt\<close>,
  \<^verbatim>\<open>std::atan2\<close>). Two arithmetics are given below: exact real arithmetic, which is how the
  specification reads the control law, and IEEE 754 binary64 with round-to-nearest-even, which
  is what the compiled program computes.
\<close>

record 'd arith =
  d_lit :: "real \<Rightarrow> 'd"
  M_PI :: "'d"
  d_neg :: "'d \<Rightarrow> 'd"
  d_add :: "'d \<Rightarrow> 'd \<Rightarrow> 'd"
  d_sub :: "'d \<Rightarrow> 'd \<Rightarrow> 'd"
  d_mul :: "'d \<Rightarrow> 'd \<Rightarrow> 'd"
  d_less :: "'d \<Rightarrow> 'd \<Rightarrow> bool"
  d_sqrt :: "'d \<Rightarrow> 'd"
  d_atan2 :: "'d \<Rightarrow> 'd \<Rightarrow> 'd"

text \<open>
  \<^verbatim>\<open>std::clamp(v, lo, hi)\<close> is \<^verbatim>\<open>(v < lo) ? lo : (hi < v) ? hi : v\<close>.
\<close>

definition clamp :: "'d arith \<Rightarrow> 'd \<Rightarrow> 'd \<Rightarrow> 'd \<Rightarrow> 'd" where
  "clamp A v lo hi = (if d_less A v lo then lo else if d_less A hi v then hi else v)"

text \<open>
  What the specification asks of a clamped signal beyond the limit \<open>2.0\<close>: the limit, with
  the sign of the signal.
\<close>

definition saturated :: "'d arith \<Rightarrow> 'd \<Rightarrow> 'd \<Rightarrow> bool" where
  "saturated A raw out \<longleftrightarrow>
     (d_less A (d_lit A 2.0) raw \<longrightarrow> out = d_lit A 2.0) \<and>
     (d_less A raw (d_neg A (d_lit A 2.0)) \<longrightarrow> out = d_neg A (d_lit A 2.0))"

section \<open>The node and its messages\<close>

text \<open>
  The members of \<^verbatim>\<open>class TurtleNavigator\<close> that hold numbers, in the order of their
  declaration. The subscriptions, the publisher and the timer belong to the transport layer.
\<close>

record 'd TurtleNavigator =
  x_goal :: "'d"
  y_goal :: "'d"
  x_current :: "'d"
  y_current :: "'d"
  theta_current :: "'d"
  kp :: "'d"
  ki :: "'d"
  kd :: "'d"
  prev_error :: "'d"
  integral :: "'d"

text \<open>The fields the callbacks read of \<^verbatim>\<open>geometry_msgs::msg::Point\<close> and \<^verbatim>\<open>turtlesim::msg::Pose\<close>.\<close>

record 'd Point =
  point_x :: "'d"
  point_y :: "'d"

record 'd Pose =
  pose_x :: "'d"
  pose_y :: "'d"
  pose_theta :: "'d"

text \<open>The fields \<^verbatim>\<open>control_loop\<close> writes of \<^verbatim>\<open>geometry_msgs::msg::Twist\<close>.\<close>

record 'd Twist =
  linear_x :: "'d"
  angular_z :: "'d"

text \<open>
  The constructor's initialiser list names \<^verbatim>\<open>x_goal_\<close>, \<^verbatim>\<open>y_goal_\<close>, \<^verbatim>\<open>kp_\<close>, \<^verbatim>\<open>ki_\<close>,
  \<^verbatim>\<open>kd_\<close>, \<^verbatim>\<open>prev_error_\<close> and \<^verbatim>\<open>integral_\<close>. It does not name \<^verbatim>\<open>x_current_\<close>,
  \<^verbatim>\<open>y_current_\<close> and \<^verbatim>\<open>theta_current_\<close>, and the body does not assign them: they keep
  whatever the object's storage held. That content is the argument \<open>mem\<close>.
\<close>

definition TurtleNavigator :: "'d arith \<Rightarrow> 'd Pose \<Rightarrow> 'd TurtleNavigator" where
  "TurtleNavigator A mem =
     \<lparr> x_goal = d_lit A 4.0, y_goal = d_lit A 5.0,
       x_current = pose_x mem, y_current = pose_y mem, theta_current = pose_theta mem,
       kp = d_lit A 1.0, ki = d_lit A 0.0, kd = d_lit A 0.05,
       prev_error = d_lit A 0.0, integral = d_lit A 0.0 \<rparr>"

definition goal_callback :: "'d TurtleNavigator \<Rightarrow> 'd Point \<Rightarrow> 'd TurtleNavigator" where
  "goal_callback s msg = s \<lparr> x_goal := point_x msg, y_goal := point_y msg \<rparr>"

definition pose_callback :: "'d TurtleNavigator \<Rightarrow> 'd Pose \<Rightarrow> 'd TurtleNavigator" where
  "pose_callback s msg =
     s \<lparr> x_current := pose_x msg, y_current := pose_y msg, theta_current := pose_theta msg \<rparr>"

section \<open>The control loop\<close>

text \<open>
  The two normalisation loops of \<^verbatim>\<open>control_loop\<close>:
  \<^verbatim>\<open>while (angle_error > M_PI) angle_error -= 2 * M_PI;\<close> and
  \<^verbatim>\<open>while (angle_error < -M_PI) angle_error += 2 * M_PI;\<close>.
  Nothing in the source bounds their iterations, so a loop that does not return has the
  value \<open>None\<close>.
\<close>

partial_function (option) wrap_down :: "'d arith \<Rightarrow> 'd \<Rightarrow> 'd option" where
  "wrap_down A angle_error =
     (if d_less A (M_PI A) angle_error
      then wrap_down A (d_sub A angle_error (d_mul A (d_lit A 2) (M_PI A)))
      else Some angle_error)"

partial_function (option) wrap_up :: "'d arith \<Rightarrow> 'd \<Rightarrow> 'd option" where
  "wrap_up A angle_error =
     (if d_less A angle_error (d_neg A (M_PI A))
      then wrap_up A (d_add A angle_error (d_mul A (d_lit A 2) (M_PI A)))
      else Some angle_error)"

definition normalize_angle :: "'d arith \<Rightarrow> 'd \<Rightarrow> 'd option" where
  "normalize_angle A angle_error =
     (case wrap_down A angle_error of
        None \<Rightarrow> None
      | Some a \<Rightarrow> wrap_up A a)"

text \<open>
  \<^verbatim>\<open>control_loop\<close> returns the node after the cycle and the message it publishes.
\<close>

definition control_loop ::
  "'d arith \<Rightarrow> 'd TurtleNavigator \<Rightarrow> ('d TurtleNavigator \<times> 'd Twist) option" where
  "control_loop A s =
     (let error_x = d_sub A (x_goal s) (x_current s);
          error_y = d_sub A (y_goal s) (y_current s);
          distance_error = d_sqrt A (d_add A (d_mul A error_x error_x) (d_mul A error_y error_y));
          angle_to_goal = d_atan2 A error_y error_x
      in case normalize_angle A (d_sub A angle_to_goal (theta_current s)) of
           None \<Rightarrow> None
         | Some angle_error \<Rightarrow>
             let control_signal =
                   d_add A (d_add A (d_mul A (kp s) distance_error) (d_mul A (ki s) (integral s)))
                           (d_mul A (kd s) (d_sub A distance_error (prev_error s)));
                 s' = s \<lparr> integral := d_add A (integral s) distance_error,
                          prev_error := distance_error \<rparr>;
                 max_linear_speed = d_lit A 2.0;
                 max_angular_speed = d_lit A 2.0;
                 control_signal' =
                   clamp A control_signal (d_neg A max_linear_speed) max_linear_speed;
                 angular = d_mul A (d_lit A 4.0) angle_error;
                 msg = \<lparr> linear_x = control_signal',
                         angular_z = clamp A angular (d_neg A max_angular_speed) max_angular_speed \<rparr>
             in Some (s', msg))"

section \<open>Executions of the node\<close>

text \<open>
  \<^verbatim>\<open>rclcpp::spin\<close> hands the node one event at a time: a message on \<^verbatim>\<open>coordinates\<close>, a
  message on \<^verbatim>\<open>turtle1/pose\<close>, or an expiry of the 100 ms timer. \<open>run\<close> is the node after a
  sequence of events, when every control cycle in it returns.
\<close>

datatype 'd event = GoalMsg "'d Point" | PoseMsg "'d Pose" | TimerTick

fun run :: "'d arith \<Rightarrow> 'd TurtleNavigator \<Rightarrow> 'd event list \<Rightarrow> 'd TurtleNavigator option" where
  "run A s [] = Some s"
| "run A s (GoalMsg msg # evs) = run A (goal_callback s msg) evs"
| "run A s (PoseMsg msg # evs) = run A (pose_callback s msg) evs"
| "run A s (TimerTick # evs) =
     (case control_loop A s of
        None \<Rightarrow> None
      | Some (s', msg) \<Rightarrow> run A s' evs)"

fun ticks :: "'d event list \<Rightarrow> nat" where
  "ticks [] = 0"
| "ticks (TimerTick # evs) = Suc (ticks evs)"
| "ticks (_ # evs) = ticks evs"

section \<open>Exact real arithmetic\<close>

text \<open>
  \<^verbatim>\<open>std::atan2(y, x)\<close> on the reals: the angle of the point \<open>(x, y)\<close> in \<open>(-\<pi>, \<pi>]\<close>,
  and \<open>0\<close> at the origin, as the C library returns there.
\<close>

definition atan2 :: "real \<Rightarrow> real \<Rightarrow> real" where
  "atan2 y x =
     (if 0 < x then arctan (y / x)
      else if x < 0 then (if 0 \<le> y then arctan (y / x) + pi else arctan (y / x) - pi)
      else if 0 < y then pi / 2
      else if y < 0 then - (pi / 2)
      else 0)"

definition real_arith :: "real arith" where
  "real_arith =
     \<lparr> d_lit = (\<lambda>x. x), M_PI = pi, d_neg = uminus, d_add = (+), d_sub = (-), d_mul = (*),
       d_less = (<), d_sqrt = sqrt, d_atan2 = atan2 \<rparr>"

section \<open>The control law as the specification words it\<close>

text \<open>
  Step 1 of the specification, \<open>distance_error = sqrt(error_x^2 + error_y^2)\<close>, and step 2
  before normalisation, \<open>angle_error = atan2(error_y, error_x) - pose.heading\<close>.
\<close>

definition distance_error :: "'d arith \<Rightarrow> 'd TurtleNavigator \<Rightarrow> 'd" where
  "distance_error A s =
     d_sqrt A (d_add A
       (d_mul A (d_sub A (x_goal s) (x_current s)) (d_sub A (x_goal s) (x_current s)))
       (d_mul A (d_sub A (y_goal s) (y_current s)) (d_sub A (y_goal s) (y_current s))))"

definition angle_error :: "'d arith \<Rightarrow> 'd TurtleNavigator \<Rightarrow> 'd" where
  "angle_error A s =
     d_sub A (d_atan2 A (d_sub A (y_goal s) (y_current s)) (d_sub A (x_goal s) (x_current s)))
             (theta_current s)"

text \<open>
  Step 4, \<open>signal = kp*distance_error + ki*integral_error + kd*(distance_error -
  previous_distance_error)\<close>, on the node as it is before the cycle.
\<close>

definition pid_signal :: "'d arith \<Rightarrow> 'd TurtleNavigator \<Rightarrow> 'd" where
  "pid_signal A s =
     d_add A (d_add A (d_mul A (kp s) (distance_error A s)) (d_mul A (ki s) (integral s)))
             (d_mul A (kd s) (d_sub A (distance_error A s) (prev_error s)))"

text \<open>
  On the reals, the first loop runs \<open>turns_down\<close> times and the second \<open>turns_up\<close> times.
\<close>

definition turns_down :: "real \<Rightarrow> nat" where
  "turns_down a = nat \<lceil>(a - pi) / (2 * pi)\<rceil>"

definition turns_up :: "real \<Rightarrow> nat" where
  "turns_up a = nat \<lceil>(- pi - a) / (2 * pi)\<rceil>"

definition wrapped :: "real \<Rightarrow> real" where
  "wrapped a =
     (let b = a - 2 * pi * real (turns_down a)
      in b + 2 * pi * real (turns_up b))"

text \<open>
  \<open>observes A d s evs\<close>: in the execution of \<open>evs\<close> from \<open>s\<close>, every control cycle finds the
  distance error \<open>d\<close>.
\<close>

fun observes :: "'d arith \<Rightarrow> 'd \<Rightarrow> 'd TurtleNavigator \<Rightarrow> 'd event list \<Rightarrow> bool" where
  "observes A d s [] = True"
| "observes A d s (GoalMsg msg # evs) = observes A d (goal_callback s msg) evs"
| "observes A d s (PoseMsg msg # evs) = observes A d (pose_callback s msg) evs"
| "observes A d s (TimerTick # evs) =
     (distance_error A s = d \<and>
      (case control_loop A s of
         None \<Rightarrow> False
       | Some (s', msg) \<Rightarrow> observes A d s' evs))"

text \<open>
  The node of the end-to-end scenario: constructed, then one pose message \<open>(0, 0, 0)\<close>.
\<close>

definition at_origin :: "real Pose \<Rightarrow> real TurtleNavigator" where
  "at_origin mem =
     pose_callback (TurtleNavigator real_arith mem) \<lparr> pose_x = 0, pose_y = 0, pose_theta = 0 \<rparr>"

text \<open>
  Two more nodes on the reals: one unit of distance short of the initial goal and heading
  towards it, and on the initial goal with a heading of a quarter of a radian.
\<close>

definition near_goal :: "real TurtleNavigator" where
  "near_goal =
     pose_callback (TurtleNavigator real_arith \<lparr> pose_x = 0, pose_y = 0, pose_theta = 0 \<rparr>)
       \<lparr> pose_x = 3, pose_y = 5, pose_theta = 0 \<rparr>"

definition on_goal :: "real TurtleNavigator" where
  "on_goal =
     pose_callback (TurtleNavigator real_arith \<lparr> pose_x = 0, pose_y = 0, pose_theta = 0 \<rparr>)
       \<lparr> pose_x = 4, pose_y = 5, pose_theta = 1 / 4 \<rparr>"

section \<open>IEEE 754 binary64 arithmetic\<close>

text \<open>
  A \<^verbatim>\<open>double\<close> is a finite number, a zero of either sign, an infinity or a NaN. \<open>Fin x\<close> is
  the finite double that denotes the real \<open>x\<close>, and \<open>Fin 0\<close> is the positive zero; \<open>NZero\<close> is
  the negative zero \<^verbatim>\<open>-0.0\<close>.
\<close>

datatype b64 = Fin real | NZero | PInf | MInf | NaN

text \<open>Round to the nearest integer, ties to the even one.\<close>

definition round_even :: "real \<Rightarrow> int" where
  "round_even x =
     (let f = \<lfloor>x\<rfloor>
      in if x - of_int f < 1 / 2 then f
         else if 1 / 2 < x - of_int f then f + 1
         else if even f then f else f + 1)"

text \<open>
  Rounding of a real to binary64 in the default rounding mode. A double has 53 significant
  bits: the doubles of exponent \<open>e\<close> are the multiples of \<open>2\<^sup>e\<^sup>-\<^sup>5\<^sup>2\<close>. The exponent of a
  nonzero real is that of its leading bit and at least \<open>-1022\<close> (below, the spacing stays
  \<open>2\<^sup>-\<^sup>1\<^sup>0\<^sup>7\<^sup>4\<close>: subnormal numbers); a result of magnitude \<open>2\<^sup>1\<^sup>0\<^sup>2\<^sup>4\<close> or more overflows to an
  infinity, and a negative real that rounds to zero gives the negative zero.
\<close>

definition b64_exponent :: "real \<Rightarrow> int" where
  "b64_exponent x = max \<lfloor>log 2 \<bar>x\<bar>\<rfloor> (- 1022)"

definition b64_quantum :: "real \<Rightarrow> real" where
  "b64_quantum x = 2 powi (b64_exponent x - 52)"

definition round_b64 :: "real \<Rightarrow> b64" where
  "round_b64 x =
     (if x = 0 then Fin 0
      else let r = of_int (round_even (x / b64_quantum x)) * b64_quantum x
           in if 2 ^ 1024 \<le> \<bar>r\<bar> then (if 0 < x then PInf else MInf)
              else if r = 0 \<and> x < 0 then NZero
              else Fin r)"

text \<open>The sign bit, the zero and the infinity of a given sign.\<close>

fun b64_negative :: "b64 \<Rightarrow> bool" where
  "b64_negative (Fin x) = (x < 0)"
| "b64_negative NZero = True"
| "b64_negative PInf = False"
| "b64_negative MInf = True"
| "b64_negative NaN = False"

fun b64_zero :: "bool \<Rightarrow> b64" where
  "b64_zero True = NZero"
| "b64_zero False = Fin 0"

definition b64_inf :: "bool \<Rightarrow> b64" where
  "b64_inf negative = (if negative then MInf else PInf)"

fun b64_neg :: "b64 \<Rightarrow> b64" where
  "b64_neg (Fin x) = (if x = 0 then NZero else Fin (- x))"
| "b64_neg NZero = Fin 0"
| "b64_neg PInf = MInf"
| "b64_neg MInf = PInf"
| "b64_neg NaN = NaN"

text \<open>
  A sum that is exactly zero is the positive zero, unless both terms are the negative zero.
\<close>

fun b64_add :: "b64 \<Rightarrow> b64 \<Rightarrow> b64" where
  "b64_add (Fin x) (Fin y) = round_b64 (x + y)"
| "b64_add (Fin x) NZero = round_b64 x"
| "b64_add NZero (Fin y) = round_b64 y"
| "b64_add NZero NZero = NZero"
| "b64_add NaN _ = NaN"
| "b64_add _ NaN = NaN"
| "b64_add PInf MInf = NaN"
| "b64_add MInf PInf = NaN"
| "b64_add PInf _ = PInf"
| "b64_add _ PInf = PInf"
| "b64_add MInf _ = MInf"
| "b64_add _ MInf = MInf"

definition b64_sub :: "b64 \<Rightarrow> b64 \<Rightarrow> b64" where
  "b64_sub x y = b64_add x (b64_neg y)"

text \<open>The sign of a product is the exclusive or of the signs, also when it is a zero.\<close>

fun b64_mul :: "b64 \<Rightarrow> b64 \<Rightarrow> b64" where
  "b64_mul (Fin x) (Fin y) =
     (if x * y = 0 then b64_zero ((x < 0) \<noteq> (y < 0)) else round_b64 (x * y))"
| "b64_mul (Fin x) NZero = b64_zero (\<not> x < 0)"
| "b64_mul NZero (Fin y) = b64_zero (\<not> y < 0)"
| "b64_mul NZero NZero = Fin 0"
| "b64_mul NaN _ = NaN"
| "b64_mul _ NaN = NaN"
| "b64_mul (Fin x) PInf = (if x = 0 then NaN else b64_inf (x < 0))"
| "b64_mul (Fin x) MInf = (if x = 0 then NaN else b64_inf (0 < x))"
| "b64_mul PInf (Fin y) = (if y = 0 then NaN else b64_inf (y < 0))"
| "b64_mul MInf (Fin y) = (if y = 0 then NaN else b64_inf (0 < y))"
| "b64_mul NZero _ = NaN"
| "b64_mul _ NZero = NaN"
| "b64_mul PInf PInf = PInf"
| "b64_mul MInf MInf = PInf"
| "b64_mul PInf MInf = MInf"
| "b64_mul MInf PInf = MInf"

text \<open>The two zeros compare equal.\<close>

fun b64_less :: "b64 \<Rightarrow> b64 \<Rightarrow> bool" where
  "b64_less (Fin x) (Fin y) = (x < y)"
| "b64_less (Fin x) NZero = (x < 0)"
| "b64_less NZero (Fin y) = (0 < y)"
| "b64_less NaN _ = False"
| "b64_less _ NaN = False"
| "b64_less (Fin x) PInf = True"
| "b64_less NZero PInf = True"
| "b64_less MInf (Fin y) = True"
| "b64_less MInf NZero = True"
| "b64_less MInf PInf = True"
| "b64_less _ _ = False"

fun b64_eq :: "b64 \<Rightarrow> b64 \<Rightarrow> bool" where
  "b64_eq (Fin x) (Fin y) = (x = y)"
| "b64_eq (Fin x) NZero = (x = 0)"
| "b64_eq NZero (Fin y) = (y = 0)"
| "b64_eq NZero NZero = True"
| "b64_eq PInf PInf = True"
| "b64_eq MInf MInf = True"
| "b64_eq _ _ = False"

text \<open>\<^verbatim>\<open>std::sqrt\<close> is correctly rounded, and the square root of \<^verbatim>\<open>-0.0\<close> is \<^verbatim>\<open>-0.0\<close>.\<close>

fun b64_sqrt :: "b64 \<Rightarrow> b64" where
  "b64_sqrt (Fin x) = (if x < 0 then NaN else round_b64 (sqrt x))"
| "b64_sqrt NZero = NZero"
| "b64_sqrt PInf = PInf"
| "b64_sqrt MInf = NaN"
| "b64_sqrt NaN = NaN"

text \<open>
  \<^verbatim>\<open>std::atan2\<close> belongs to the C library. \<open>atan2_upper y x\<close> is its value for a \<open>y\<close> of
  positive sign: the rounded exact value on finite arguments, and the values of C Annex F at
  the zeros and the infinities (\<open>atan2(+0, x)\<close> is \<open>+0\<close> for \<open>x\<close> of positive sign and \<open>\<pi>\<close>
  for \<open>x\<close> of negative sign, \<^verbatim>\<open>-0.0\<close> included; \<open>atan2(y, \<plusminus>0)\<close> is \<open>\<pi>/2\<close> for \<open>y > 0\<close>). For a
  \<open>y\<close> of negative sign, \<open>atan2(y, x) = - atan2(-y, x)\<close>.

  The C standard does not fix the accuracy of \<^verbatim>\<open>atan2\<close>, and a C library may return a
  neighbour of the rounded exact value. \<open>b64_atan2\<close> is the correctly rounded function;
  \<open>b64_libm\<close> below is binary64 with any other function in its place, and the results that
  rest on an inexact value of \<^verbatim>\<open>atan2\<close> are proved for it as well.
\<close>

fun atan2_upper :: "b64 \<Rightarrow> b64 \<Rightarrow> b64" where
  "atan2_upper (Fin y) (Fin x) = round_b64 (atan2 y x)"
| "atan2_upper (Fin y) NZero = round_b64 (if y = 0 then pi else pi / 2)"
| "atan2_upper (Fin y) PInf = Fin 0"
| "atan2_upper (Fin y) MInf = round_b64 pi"
| "atan2_upper PInf PInf = round_b64 (pi / 4)"
| "atan2_upper PInf MInf = round_b64 (3 * pi / 4)"
| "atan2_upper PInf (Fin x) = round_b64 (pi / 2)"
| "atan2_upper PInf NZero = round_b64 (pi / 2)"
| "atan2_upper _ _ = NaN"

definition b64_atan2 :: "b64 \<Rightarrow> b64 \<Rightarrow> b64" where
  "b64_atan2 y x =
     (if y = NaN \<or> x = NaN then NaN
      else if b64_negative y then b64_neg (atan2_upper (b64_neg y) x)
      else atan2_upper y x)"

text \<open>
  \<^verbatim>\<open>M_PI\<close> is the double \<^verbatim>\<open>0x1.921fb54442d18p+1\<close>, that is \<open>884279719003555 / 2\<^sup>4\<^sup>8\<close>.
  A literal denotes the double nearest to it.
\<close>

definition b64_arith :: "b64 arith" where
  "b64_arith =
     \<lparr> d_lit = round_b64, M_PI = Fin (884279719003555 / 2 ^ 48), d_neg = b64_neg,
       d_add = b64_add, d_sub = b64_sub, d_mul = b64_mul, d_less = b64_less,
       d_sqrt = b64_sqrt, d_atan2 = b64_atan2 \<rparr>"

text \<open>Binary64 with the function \<open>lib\<close> as the C library's \<^verbatim>\<open>atan2\<close>.\<close>

definition b64_libm :: "(b64 \<Rightarrow> b64 \<Rightarrow> b64) \<Rightarrow> b64 arith" where
  "b64_libm lib = b64_arith \<lparr> d_atan2 := lib \<rparr>"

text \<open>A finite double: a zero, or a finite value that rounding leaves as it is.\<close>

fun is_finite :: "b64 \<Rightarrow> bool" where
  "is_finite (Fin x) = (round_b64 x = Fin x)"
| "is_finite NZero = True"
| "is_finite _ = False"

definition finite_state :: "b64 TurtleNavigator \<Rightarrow> bool" where
  "finite_state s \<longleftrightarrow>
     is_finite (x_goal s) \<and> is_finite (y_goal s) \<and> is_finite (x_current s) \<and>
     is_finite (y_current s) \<and> is_finite (theta_current s) \<and> is_finite (kp s) \<and>
     is_finite (ki s) \<and> is_finite (kd s) \<and> is_finite (prev_error s) \<and> is_finite (integral s)"

text \<open>The gains the constructor sets; nothing in the source changes them afterwards.\<close>

definition constructed_gains :: "'d arith \<Rightarrow> 'd TurtleNavigator \<Rightarrow> bool" where
  "constructed_gains A s \<longleftrightarrow>
     kp s = d_lit A 1.0 \<and> ki s = d_lit A 0.0 \<and> kd s = d_lit A 0.05"

text \<open>A finite double between two reals.\<close>

fun b64_within :: "real \<Rightarrow> real \<Rightarrow> b64 \<Rightarrow> bool" where
  "b64_within lo hi (Fin x) = (lo \<le> x \<and> x \<le> hi)"
| "b64_within lo hi NZero = (lo \<le> 0 \<and> 0 \<le> hi)"
| "b64_within lo hi _ = False"

text \<open>
  The node after construction and one pose message \<^verbatim>\<open>{x: 3, y: 5, theta: -2^60}\<close>; the goal is
  still the initial one, \<open>(4, 5)\<close>.
\<close>

definition far_heading :: "b64 TurtleNavigator" where
  "far_heading =
     pose_callback
       (TurtleNavigator b64_arith \<lparr> pose_x = Fin 0, pose_y = Fin 0, pose_theta = Fin 0 \<rparr>)
       \<lparr> pose_x = Fin 3, pose_y = Fin 5, pose_theta = Fin (- (2 ^ 60)) \<rparr>"

text \<open>
  The same messages in exact arithmetic, and the node on the initial goal with that heading.
\<close>

definition far_heading_exact :: "real TurtleNavigator" where
  "far_heading_exact =
     pose_callback (TurtleNavigator real_arith \<lparr> pose_x = 0, pose_y = 0, pose_theta = 0 \<rparr>)
       \<lparr> pose_x = 3, pose_y = 5, pose_theta = - (2 ^ 60) \<rparr>"

definition on_goal_far_heading :: "b64 TurtleNavigator" where
  "on_goal_far_heading =
     pose_callback
       (TurtleNavigator b64_arith \<lparr> pose_x = Fin 0, pose_y = Fin 0, pose_theta = Fin 0 \<rparr>)
       \<lparr> pose_x = Fin 4, pose_y = Fin 5, pose_theta = Fin (- (2 ^ 60)) \<rparr>"

text \<open>
  The node after construction, one goal message \<^verbatim>\<open>{x: 2^600, y: 0}\<close> and one pose message
  \<^verbatim>\<open>{x: 0, y: 0, theta: 0}\<close>.
\<close>

definition far_goal :: "b64 TurtleNavigator" where
  "far_goal =
     pose_callback
       (goal_callback
          (TurtleNavigator b64_arith \<lparr> pose_x = Fin 0, pose_y = Fin 0, pose_theta = Fin 0 \<rparr>)
          \<lparr> point_x = Fin (2 ^ 600), point_y = Fin 0 \<rparr>)
       \<lparr> pose_x = Fin 0, pose_y = Fin 0, pose_theta = Fin 0 \<rparr>"

text \<open>
  A node whose goal is \<open>(gx, +0)\<close> and whose pose is \<open>(+0, +0)\<close> with the heading \<open>1\<close>: after
  construction, the goal message \<^verbatim>\<open>{x: gx, y: 0.0}\<close> and the pose message
  \<^verbatim>\<open>{x: 0.0, y: 0.0, theta: 1.0}\<close>.
\<close>

definition on_zero_goal :: "b64 \<Rightarrow> b64 TurtleNavigator" where
  "on_zero_goal gx =
     pose_callback
       (goal_callback
          (TurtleNavigator b64_arith \<lparr> pose_x = Fin 0, pose_y = Fin 0, pose_theta = Fin 0 \<rparr>)
          \<lparr> point_x = gx, point_y = Fin 0 \<rparr>)
       \<lparr> pose_x = Fin 0, pose_y = Fin 0, pose_theta = Fin 1 \<rparr>"

text \<open>
  The node one unit of distance short of the initial goal, in binary64.
\<close>

definition near_goal_b64 :: "b64 TurtleNavigator" where
  "near_goal_b64 =
     pose_callback
       (TurtleNavigator b64_arith \<lparr> pose_x = Fin 0, pose_y = Fin 0, pose_theta = Fin 0 \<rparr>)
       \<lparr> pose_x = Fin 3, pose_y = Fin 5, pose_theta = Fin 0 \<rparr>"

text \<open>
  The nodes of the scenario and on the goal, in binary64.
\<close>

definition at_origin_b64 :: "b64 Pose \<Rightarrow> b64 TurtleNavigator" where
  "at_origin_b64 mem =
     pose_callback (TurtleNavigator b64_arith mem)
       \<lparr> pose_x = Fin 0, pose_y = Fin 0, pose_theta = Fin 0 \<rparr>"

definition on_goal_b64 :: "b64 TurtleNavigator" where
  "on_goal_b64 =
     pose_callback
       (TurtleNavigator b64_arith \<lparr> pose_x = Fin 0, pose_y = Fin 0, pose_theta = Fin 0 \<rparr>)
       \<lparr> pose_x = Fin 4, pose_y = Fin 5, pose_theta = Fin (1 / 4) \<rparr>"

section \<open>The shape of a control cycle\<close>

text \<open>
  In every arithmetic, a control cycle returns exactly when the normalisation of the heading
  error does, and then it stores and publishes the following.
\<close>

lemma control_loop_eq:
  "control_loop A s =
     (case normalize_angle A (angle_error A s) of
        None \<Rightarrow> None
      | Some a \<Rightarrow>
          Some (s \<lparr> integral := d_add A (integral s) (distance_error A s),
                    prev_error := distance_error A s \<rparr>,
                \<lparr> linear_x = clamp A (pid_signal A s) (d_neg A (d_lit A 2)) (d_lit A 2),
                  angular_z =
                    clamp A (d_mul A (d_lit A 4) a) (d_neg A (d_lit A 2)) (d_lit A 2) \<rparr>))"
  by (simp add: control_loop_def angle_error_def distance_error_def pid_signal_def Let_def
      split: option.splits)

text \<open>
  The goal is \<open>(4.0, 5.0)\<close> after construction, and each callback overwrites what it stores
  with the message.
\<close>

lemma stores_set_get:
  "x_goal (TurtleNavigator A mem) = d_lit A 4" "y_goal (TurtleNavigator A mem) = d_lit A 5"
  "x_goal (goal_callback s g) = point_x g" "y_goal (goal_callback s g) = point_y g"
  "x_current (pose_callback s p) = pose_x p" "y_current (pose_callback s p) = pose_y p"
  "theta_current (pose_callback s p) = pose_theta p"
  by (simp_all add: TurtleNavigator_def goal_callback_def pose_callback_def)



text \<open>An invariant of the loop body holds of what the loop returns.\<close>

lemma wrap_down_invariant:
  assumes ret: "wrap_down A a = Some r" and init: "I a"
    and step: "\<And>b. I b \<Longrightarrow> d_less A (M_PI A) b \<Longrightarrow> I (d_sub A b (d_mul A (d_lit A 2) (M_PI A)))"
  shows "I r"
proof -
  have "A = A \<longrightarrow> I a \<longrightarrow> I r"
  proof (rule wrap_down.raw_induct[where P = "\<lambda>A' b y. A' = A \<longrightarrow> I b \<longrightarrow> I y", OF _ ret])
    fix f A' b y
    assume IH: "\<And>A'' c z. f A'' c = Some z \<Longrightarrow> A'' = A \<longrightarrow> I c \<longrightarrow> I z"
      and eq: "(if d_less A' (M_PI A') b
                then f A' (d_sub A' b (d_mul A' (d_lit A' 2) (M_PI A')))
                else Some b) = Some y"
    show "A' = A \<longrightarrow> I b \<longrightarrow> I y"
    proof (intro impI)
      assume A': "A' = A" and b: "I b"
      show "I y"
      proof (cases "d_less A (M_PI A) b")
        case True
        with eq A' have "f A (d_sub A b (d_mul A (d_lit A 2) (M_PI A))) = Some y" by simp
        from IH[OF this] step[OF b True] show ?thesis by simp
      next
        case False
        with eq A' b show ?thesis by simp
      qed
    qed
  qed
  with init show ?thesis by simp
qed

lemma wrap_up_invariant:
  assumes ret: "wrap_up A a = Some r" and init: "I a"
    and step: "\<And>b. I b \<Longrightarrow> d_less A b (d_neg A (M_PI A)) \<Longrightarrow> I (d_add A b (d_mul A (d_lit A 2) (M_PI A)))"
  shows "I r"
proof -
  have "A = A \<longrightarrow> I a \<longrightarrow> I r"
  proof (rule wrap_up.raw_induct[where P = "\<lambda>A' b y. A' = A \<longrightarrow> I b \<longrightarrow> I y", OF _ ret])
    fix f A' b y
    assume IH: "\<And>A'' c z. f A'' c = Some z \<Longrightarrow> A'' = A \<longrightarrow> I c \<longrightarrow> I z"
      and eq: "(if d_less A' b (d_neg A' (M_PI A'))
                then f A' (d_add A' b (d_mul A' (d_lit A' 2) (M_PI A')))
                else Some b) = Some y"
    show "A' = A \<longrightarrow> I b \<longrightarrow> I y"
    proof (intro impI)
      assume A': "A' = A" and b: "I b"
      show "I y"
      proof (cases "d_less A b (d_neg A (M_PI A))")
        case True
        with eq A' have "f A (d_add A b (d_mul A (d_lit A 2) (M_PI A))) = Some y" by simp
        from IH[OF this] step[OF b True] show ?thesis by simp
      next
        case False
        with eq A' b show ?thesis by simp
      qed
    qed
  qed
  with init show ?thesis by simp
qed

text \<open>
  A loop whose test holds at a value that the loop body maps to itself does not return.
\<close>

lemma wrap_down_stuck:
  assumes "d_less A (M_PI A) a" and "d_sub A a (d_mul A (d_lit A 2) (M_PI A)) = a"
  shows "wrap_down A a = None"
proof (cases "wrap_down A a")
  case None
  then show ?thesis .
next
  case (Some y)
  have "\<not> (A = A \<and> a = a)"
  proof (rule wrap_down.raw_induct[where P = "\<lambda>A' a' y'. \<not> (A' = A \<and> a' = a)", OF _ Some])
    fix f A' a' y'
    assume IH: "\<And>A'' b y. f A'' b = Some y \<Longrightarrow> \<not> (A'' = A \<and> b = a)"
      and eq: "(if d_less A' (M_PI A') a'
                then f A' (d_sub A' a' (d_mul A' (d_lit A' 2) (M_PI A')))
                else Some a') = Some y'"
    show "\<not> (A' = A \<and> a' = a)"
    proof
      assume "A' = A \<and> a' = a"
      with eq assms have "f A a = Some y'" by simp
      from IH[OF this] show False by simp
    qed
  qed
  then show ?thesis by simp
qed

text \<open>The distance and heading errors do not read \<^verbatim>\<open>integral_\<close> and \<^verbatim>\<open>prev_error_\<close>.\<close>

lemma errors_ignore_controller_state:
  "distance_error A (s \<lparr> integral := i, prev_error := p \<rparr>) = distance_error A s"
  "angle_error A (s \<lparr> integral := i, prev_error := p \<rparr>) = angle_error A s"
  by (simp_all add: distance_error_def angle_error_def)

text \<open>The integral in any arithmetic: the distance error, added once per control cycle.\<close>

lemma run_integral:
  "observes A d s evs \<Longrightarrow>
   \<exists>s'. run A s evs = Some s' \<and> integral s' = ((\<lambda>x. d_add A x d) ^^ ticks evs) (integral s)"
proof (induction evs arbitrary: s)
  case Nil
  then show ?case by simp
next
  case (Cons ev evs)
  show ?case
  proof (cases ev)
    case (GoalMsg msg)
    with Cons.prems have "observes A d (goal_callback s msg) evs" by simp
    from Cons.IH[OF this] GoalMsg show ?thesis by (simp add: goal_callback_def)
  next
    case (PoseMsg msg)
    with Cons.prems have "observes A d (pose_callback s msg) evs" by simp
    from Cons.IH[OF this] PoseMsg show ?thesis by (simp add: pose_callback_def)
  next
    case TimerTick
    with Cons.prems obtain s1 msg where c: "control_loop A s = Some (s1, msg)"
      and d: "distance_error A s = d" and o: "observes A d s1 evs"
      by (auto split: option.splits)
    from c have i: "integral s1 = d_add A (integral s) (distance_error A s)"
      by (auto simp: control_loop_eq split: option.splits)
    from Cons.IH[OF o] obtain s' where "run A s1 evs = Some s'"
      and "integral s' = ((\<lambda>x. d_add A x d) ^^ ticks evs) (integral s1)" by blast
    with c i d TimerTick show ?thesis
      using funpow_swap1[of "\<lambda>x. d_add A x d" "ticks evs" "integral s"] by simp
  qed
qed

section \<open>Exact arithmetic: the normalisation loops\<close>

lemma real_arith_simps:
  "d_lit real_arith x = x" "M_PI real_arith = pi" "d_neg real_arith x = - x"
  "d_add real_arith x y = x + y" "d_sub real_arith x y = x - y" "d_mul real_arith x y = x * y"
  "d_less real_arith x y = (x < y)" "d_sqrt real_arith x = sqrt x"
  "d_atan2 real_arith y x = atan2 y x"
  by (simp_all add: real_arith_def)

lemma clamp_real: "clamp real_arith v lo hi = (if v < lo then lo else if hi < v then hi else v)"
  by (simp add: clamp_def real_arith_simps)

lemma saturated_clamp_real:
  "saturated real_arith v (clamp real_arith v (- 2) 2)"
  by (simp add: saturated_def clamp_real real_arith_simps)

lemma turns_down_0: "turns_down a = 0 \<longleftrightarrow> a \<le> pi"
proof -
  have "turns_down a = 0 \<longleftrightarrow> \<lceil>(a - pi) / (2 * pi)\<rceil> \<le> 0"
    by (simp add: turns_down_def)
  also have "\<dots> \<longleftrightarrow> (a - pi) / (2 * pi) \<le> 0"
    by (simp add: ceiling_le_iff)
  also have "\<dots> \<longleftrightarrow> a \<le> pi"
    by (simp add: pos_divide_le_eq)
  finally show ?thesis .
qed

lemma turns_down_step:
  assumes "pi < a"
  shows "turns_down a = Suc (turns_down (a - 2 * pi))"
proof -
  have "(a - 2 * pi - pi) / (2 * pi) = (a - pi) / (2 * pi) - 1"
    by (simp add: field_simps)
  then have c: "\<lceil>(a - 2 * pi - pi) / (2 * pi)\<rceil> = \<lceil>(a - pi) / (2 * pi)\<rceil> - 1"
    by simp
  have "0 < (a - pi) / (2 * pi)"
    using assms by simp
  then have "0 < \<lceil>(a - pi) / (2 * pi)\<rceil>"
    by (simp add: less_ceiling_iff)
  then have "nat \<lceil>(a - pi) / (2 * pi)\<rceil> = Suc (nat (\<lceil>(a - pi) / (2 * pi)\<rceil> - 1))"
    by linarith
  with c show ?thesis
    by (simp only: turns_down_def)
qed

text \<open>The first loop returns on every real, after \<open>turns_down\<close> iterations.\<close>

lemma wrap_down_real_aux:
  "turns_down a = n \<Longrightarrow> wrap_down real_arith a = Some (a - 2 * pi * real n)"
proof (induction n arbitrary: a)
  case 0
  then have "a \<le> pi"
    by (simp only: turns_down_0)
  then show ?case
    by (subst wrap_down.simps) (simp add: real_arith_simps)
next
  case (Suc n)
  have gt: "pi < a"
  proof (rule ccontr)
    assume "\<not> pi < a"
    then have "turns_down a = 0"
      by (simp add: turns_down_0)
    with Suc.prems show False
      by simp
  qed
  from turns_down_step[OF gt] Suc.prems have "turns_down (a - 2 * pi) = n"
    by simp
  from Suc.IH[OF this] gt show ?case
    by (subst wrap_down.simps) (simp add: real_arith_simps algebra_simps)
qed

lemma wrap_down_real: "wrap_down real_arith a = Some (a - 2 * pi * real (turns_down a))"
  by (rule wrap_down_real_aux) (rule refl)

lemma turns_up_0: "turns_up a = 0 \<longleftrightarrow> - pi \<le> a"
proof -
  have "turns_up a = 0 \<longleftrightarrow> \<lceil>(- pi - a) / (2 * pi)\<rceil> \<le> 0"
    by (simp add: turns_up_def)
  also have "\<dots> \<longleftrightarrow> (- pi - a) / (2 * pi) \<le> 0"
    by (simp add: ceiling_le_iff)
  also have "\<dots> \<longleftrightarrow> - pi \<le> a"
    by (simp add: pos_divide_le_eq)
  finally show ?thesis .
qed

lemma turns_up_step:
  assumes "a < - pi"
  shows "turns_up a = Suc (turns_up (a + 2 * pi))"
proof -
  have "(- pi - (a + 2 * pi)) / (2 * pi) = (- pi - a) / (2 * pi) - 1"
    by (simp add: field_simps)
  then have c: "\<lceil>(- pi - (a + 2 * pi)) / (2 * pi)\<rceil> = \<lceil>(- pi - a) / (2 * pi)\<rceil> - 1"
    by simp
  have "0 < (- pi - a) / (2 * pi)"
    using assms by simp
  then have "0 < \<lceil>(- pi - a) / (2 * pi)\<rceil>"
    by (simp add: less_ceiling_iff)
  then have "nat \<lceil>(- pi - a) / (2 * pi)\<rceil> = Suc (nat (\<lceil>(- pi - a) / (2 * pi)\<rceil> - 1))"
    by linarith
  with c show ?thesis
    by (simp only: turns_up_def)
qed

text \<open>So does the second loop, after \<open>turns_up\<close> iterations.\<close>

lemma wrap_up_real_aux:
  "turns_up a = n \<Longrightarrow> wrap_up real_arith a = Some (a + 2 * pi * real n)"
proof (induction n arbitrary: a)
  case 0
  then have "- pi \<le> a"
    by (simp only: turns_up_0)
  then show ?case
    by (subst wrap_up.simps) (simp add: real_arith_simps)
next
  case (Suc n)
  have lt: "a < - pi"
  proof (rule ccontr)
    assume "\<not> a < - pi"
    then have "turns_up a = 0"
      by (simp add: turns_up_0)
    with Suc.prems show False
      by simp
  qed
  from turns_up_step[OF lt] Suc.prems have "turns_up (a + 2 * pi) = n"
    by simp
  from Suc.IH[OF this] lt show ?case
    by (subst wrap_up.simps) (simp add: real_arith_simps algebra_simps)
qed

lemma wrap_up_real: "wrap_up real_arith a = Some (a + 2 * pi * real (turns_up a))"
  by (rule wrap_up_real_aux) (rule refl)

lemma normalize_real: "normalize_angle real_arith a = Some (wrapped a)"
  by (simp add: normalize_angle_def wrap_down_real wrap_up_real wrapped_def Let_def)

text \<open>Where the loops leave the angle.\<close>

lemma turns_down_bounds:
  assumes "pi < a"
  shows "- pi < a - 2 * pi * real (turns_down a)" and "a - 2 * pi * real (turns_down a) \<le> pi"
proof -
  let ?c = "\<lceil>(a - pi) / (2 * pi)\<rceil>"
  have pos: "0 < (a - pi) / (2 * pi)"
    using assms by simp
  then have "0 < ?c"
    by (simp add: less_ceiling_iff)
  then have k: "real (turns_down a) = of_int ?c"
    by (simp add: turns_down_def)
  have tp: "0 < 2 * pi"
    by simp
  have 1: "(a - pi) / (2 * pi) \<le> of_int ?c"
    by (rule le_of_int_ceiling)
  have 2: "of_int ?c < (a - pi) / (2 * pi) + 1"
    using ceiling_correct[of "(a - pi) / (2 * pi)"] by linarith
  from 1 have "a - pi \<le> of_int ?c * (2 * pi)"
    by (simp only: pos_divide_le_eq[OF tp])
  then show "a - 2 * pi * real (turns_down a) \<le> pi"
    by (simp add: k algebra_simps)
  from 2 have "of_int ?c * (2 * pi) < a - pi + 2 * pi"
    by (simp add: pos_less_divide_eq field_simps)
  then show "- pi < a - 2 * pi * real (turns_down a)"
    by (simp add: k algebra_simps)
qed


lemma wrapped_cases:
  "wrapped a =
     (if pi < a then a - 2 * pi * real (turns_down a)
      else if a < - pi then a + 2 * pi * real (turns_up a)
      else a)"
proof (cases "pi < a")
  case True
  from turns_down_bounds[OF True] have "turns_up (a - 2 * pi * real (turns_down a)) = 0"
    by (simp add: turns_up_0)
  with True show ?thesis
    by (simp add: wrapped_def Let_def)
next
  case False
  then have "turns_down a = 0"
    by (simp add: turns_down_0)
  moreover have "\<not> a < - pi \<Longrightarrow> turns_up a = 0"
    by (simp add: turns_up_0)
  ultimately show ?thesis
    using False by (simp add: wrapped_def Let_def)
qed


lemma wrapped_id: "- pi \<le> a \<Longrightarrow> a \<le> pi \<Longrightarrow> wrapped a = a"
  by (simp add: wrapped_cases)




section \<open>Exact arithmetic: the control cycle\<close>

text \<open>In exact arithmetic every control cycle returns.\<close>

lemma control_loop_real:
  "control_loop real_arith s =
     Some (s \<lparr> integral := integral s + distance_error real_arith s,
               prev_error := distance_error real_arith s \<rparr>,
           \<lparr> linear_x = clamp real_arith (pid_signal real_arith s) (- 2) 2,
             angular_z = clamp real_arith (4 * wrapped (angle_error real_arith s)) (- 2) 2 \<rparr>)"
  by (simp add: control_loop_eq normalize_real) (simp add: real_arith_simps)

lemma atan2_origin: "atan2 0 0 = 0"
  by (simp add: atan2_def)

lemma cycle_on_goal:
  assumes "x_current s = x_goal s" and "y_current s = y_goal s"
    and "prev_error s = 0" and "integral s = 0"
  shows "control_loop real_arith s =
           Some (s, \<lparr> linear_x = 0,
                      angular_z = clamp real_arith (4 * wrapped (- theta_current s)) (- 2) 2 \<rparr>)"
proof -
  have d: "distance_error real_arith s = 0"
    using assms by (simp add: distance_error_def real_arith_simps)
  have a: "angle_error real_arith s = - theta_current s"
    using assms by (simp add: angle_error_def real_arith_simps atan2_origin)
  have p: "pid_signal real_arith s = 0"
    using assms d by (simp add: pid_signal_def real_arith_simps)
  have "s \<lparr> integral := integral s + 0, prev_error := 0 \<rparr> = s"
    using assms by simp
  then show ?thesis
    by (simp add: control_loop_real d a p clamp_real)
qed

subsection \<open>The end-to-end scenario\<close>

lemma sqrt_41_bounds: "6.4031 < sqrt 41" "sqrt 41 < 6.4032"
proof -
  show "6.4031 < sqrt 41"
    by (rule real_less_rsqrt) (simp add: power2_eq_square)
  show "sqrt 41 < 6.4032"
    by (rule real_less_lsqrt) (simp_all add: power2_eq_square)
qed

lemma pi_ge_3: "3 \<le> pi"
proof -
  have "sin (pi / 6) \<le> pi / 6"
    by (rule sin_x_le_x) simp
  then show ?thesis by (simp add: sin_30)
qed

lemma arctan_5_4_bounds: "pi / 4 < arctan (5 / 4)" "arctan (5 / 4) < pi / 2"
proof -
  have "arctan 1 < arctan (5 / 4)"
    by (rule arctan_monotone) simp
  then show "pi / 4 < arctan (5 / 4)"
    by (simp add: arctan_one)
  show "arctan (5 / 4) < pi / 2"
    by (rule arctan_ubound)
qed

lemma arctan_5_4_coarse: "3 / 4 \<le> arctan (5 / 4)" "arctan (5 / 4) \<le> 2"
proof -
  have "arctan 1 < arctan (5 / 4)" by (rule arctan_monotone) simp
  then show "3 / 4 \<le> arctan (5 / 4)" using pi_ge_3 by (simp add: arctan_one)
  have "arctan (5 / 4) < pi / 2" by (rule arctan_ubound)
  then show "arctan (5 / 4) \<le> 2" using pi_half_less_two by linarith
qed

lemma sin_poly_bound:
  fixes x :: real
  shows "\<bar>sin x - (x - x ^ 3 / 6 + x ^ 5 / 120 - x ^ 7 / 5040 + x ^ 9 / 362880)\<bar>
     \<le> \<bar>x\<bar> ^ 10 / 3628800"
proof -
  have p: "(\<Sum>m<10. sin_coeff m * x ^ m)
      = x - x ^ 3 / 6 + x ^ 5 / 120 - x ^ 7 / 5040 + x ^ 9 / 362880"
    by (simp add: eval_nat_numeral sum.lessThan_Suc sin_coeff_Suc cos_coeff_Suc)
  have f: "fact 10 = (3628800::real)"
    by (simp add: fact_numeral)
  have "\<bar>sin x - (\<Sum>m<10. sin_coeff m * x ^ m)\<bar> \<le> inverse (fact 10) * \<bar>x\<bar> ^ 10"
    by (rule Maclaurin_sin_bound)
  moreover have "inverse (3628800::real) * \<bar>x\<bar> ^ 10 = \<bar>x\<bar> ^ 10 / 3628800"
    by (simp add: field_simps)
  ultimately show ?thesis
    unfolding p f by (simp only:)
qed

lemma cos_poly_bound:
  fixes x :: real
  assumes "0 < x"
  shows "\<bar>cos x - (1 - x ^ 2 / 2 + x ^ 4 / 24 - x ^ 6 / 720 + x ^ 8 / 40320)\<bar>
     \<le> x ^ 10 / 3628800"
proof -
  have s: "(\<Sum>m<10. cos_coeff m * x ^ m)
      = 1 - x ^ 2 / 2 + x ^ 4 / 24 - x ^ 6 / 720 + x ^ 8 / 40320"
    by (simp add: eval_nat_numeral sum.lessThan_Suc sin_coeff_Suc cos_coeff_Suc)
  from Maclaurin_cos_expansion2[OF assms, of 10]
  obtain t where "cos x = (\<Sum>m<10. cos_coeff m * x ^ m)
      + (cos (t + 1 / 2 * real 10 * pi) / fact 10) * x ^ 10"
    by auto
  then have "cos x - (1 - x ^ 2 / 2 + x ^ 4 / 24 - x ^ 6 / 720 + x ^ 8 / 40320)
      = cos (t + 1 / 2 * real 10 * pi) * (x ^ 10 / fact 10)"
    unfolding s by simp
  then have "\<bar>cos x - (1 - x ^ 2 / 2 + x ^ 4 / 24 - x ^ 6 / 720 + x ^ 8 / 40320)\<bar>
      = \<bar>cos (t + 1 / 2 * real 10 * pi)\<bar> * (x ^ 10 / fact 10)"
    using assms by (simp add: abs_mult)
  also have "\<dots> \<le> 1 * (x ^ 10 / fact 10)"
    using assms by (intro mult_right_mono) simp_all
  also have "\<dots> = x ^ 10 / 3628800"
    by (simp add: fact_numeral)
  finally show ?thesis .
qed

text \<open>\<open>arctan (5/4)\<close> to four decimal places.\<close>

lemma arctan_5_4_lower: "0.896 < arctan (5 / 4)"
proof -
  let ?a = "0.896 :: real"
  define S where "S = (?a - ?a ^ 3 / 6 + ?a ^ 5 / 120 - ?a ^ 7 / 5040 + ?a ^ 9 / 362880)
      + ?a ^ 10 / 3628800"
  define C where "C = (1 - ?a ^ 2 / 2 + ?a ^ 4 / 24 - ?a ^ 6 / 720 + ?a ^ 8 / 40320)
      - ?a ^ 10 / 3628800"
  have s: "sin ?a \<le> S"
    unfolding S_def using sin_poly_bound[of ?a] by (simp only: abs_le_iff) simp
  have c: "C \<le> cos ?a"
    unfolding C_def using cos_poly_bound[of ?a] by (simp only: abs_le_iff) simp
  have "S < 5 / 4 * C"
    unfolding S_def C_def by (simp add: power_divide)
  with s c have sc: "sin ?a < 5 / 4 * cos ?a"
    by linarith
  have a2: "?a < pi / 2"
    using pi_ge_two by simp
  then have cpos: "0 < cos ?a"
    by (intro cos_gt_zero_pi) simp_all
  from sc cpos have "tan ?a < 5 / 4"
    by (simp add: tan_def pos_divide_less_eq)
  then have "arctan (tan ?a) < arctan (5 / 4)"
    by (simp only: arctan_less_iff)
  moreover have "arctan (tan ?a) = ?a"
    using a2 by (intro arctan_tan) simp_all
  ultimately show ?thesis
    by simp
qed

lemma arctan_5_4_upper: "arctan (5 / 4) < 0.8961"
proof -
  let ?b = "0.8961 :: real"
  define S where "S = (?b - ?b ^ 3 / 6 + ?b ^ 5 / 120 - ?b ^ 7 / 5040 + ?b ^ 9 / 362880)
      - ?b ^ 10 / 3628800"
  define C where "C = (1 - ?b ^ 2 / 2 + ?b ^ 4 / 24 - ?b ^ 6 / 720 + ?b ^ 8 / 40320)
      + ?b ^ 10 / 3628800"
  have s: "S \<le> sin ?b"
    unfolding S_def using sin_poly_bound[of ?b] by (simp only: abs_le_iff) simp
  have c: "cos ?b \<le> C"
    unfolding C_def using cos_poly_bound[of ?b] by (simp only: abs_le_iff) simp
  have "5 / 4 * C < S"
    unfolding S_def C_def by (simp add: power_divide)
  with s c have sc: "5 / 4 * cos ?b < sin ?b"
    by linarith
  have b2: "?b < pi / 2"
    using pi_ge_two by simp
  then have cpos: "0 < cos ?b"
    by (intro cos_gt_zero_pi) simp_all
  from sc cpos have "5 / 4 < tan ?b"
    by (simp add: tan_def pos_less_divide_eq)
  then have "arctan (5 / 4) < arctan (tan ?b)"
    by (simp only: arctan_less_iff)
  moreover have "arctan (tan ?b) = ?b"
    using b2 by (intro arctan_tan) simp_all
  ultimately show ?thesis
    by simp
qed

lemma atan2_5_4_bounds:
  "0.896 < atan2 5 4" "atan2 5 4 < 0.8961" "3.584 < 4 * atan2 5 4" "4 * atan2 5 4 < 3.5844"
  using arctan_5_4_lower arctan_5_4_upper by (simp_all add: atan2_def)

lemma at_origin_simps:
  "x_goal (at_origin mem) = 4" "y_goal (at_origin mem) = 5"
  "x_current (at_origin mem) = 0" "y_current (at_origin mem) = 0"
  "theta_current (at_origin mem) = 0"
  "kp (at_origin mem) = 1" "ki (at_origin mem) = 0" "kd (at_origin mem) = 0.05"
  "prev_error (at_origin mem) = 0" "integral (at_origin mem) = 0"
  by (simp_all add: at_origin_def pose_callback_def TurtleNavigator_def real_arith_simps)

lemma at_origin_distance: "distance_error real_arith (at_origin mem) = sqrt 41"
  by (simp add: distance_error_def at_origin_simps real_arith_simps)

lemma at_origin_angle: "angle_error real_arith (at_origin mem) = arctan (5 / 4)"
  by (simp add: angle_error_def at_origin_simps real_arith_simps atan2_def)

lemma at_origin_signal: "pid_signal real_arith (at_origin mem) = sqrt 41 + 0.05 * sqrt 41"
  by (simp add: pid_signal_def at_origin_simps at_origin_distance real_arith_simps)

lemma wrapped_arctan_5_4: "wrapped (arctan (5 / 4)) = arctan (5 / 4)"
  using arctan_5_4_bounds pi_gt_zero by (simp add: wrapped_cases)

lemma at_origin_signal_bounds:
  "6.723 < pid_signal real_arith (at_origin mem)" "pid_signal real_arith (at_origin mem) < 6.724"
  using sqrt_41_bounds by (simp_all add: at_origin_signal)

lemma at_origin_angular_signal: "2 < 4 * wrapped (angle_error real_arith (at_origin mem))"
  using arctan_5_4_bounds(1) pi_ge_two by (simp add: at_origin_angle wrapped_arctan_5_4)

lemma at_origin_cycle:
  "control_loop real_arith (at_origin mem) =
     Some ((at_origin mem) \<lparr> integral := sqrt 41, prev_error := sqrt 41 \<rparr>,
           \<lparr> linear_x = 2, angular_z = 2 \<rparr>)"
  using at_origin_signal_bounds[of mem] at_origin_angular_signal[of mem]
  by (simp add: control_loop_real at_origin_distance clamp_real at_origin_simps)

subsection \<open>Other nodes, and executions\<close>

lemma near_goal_simps:
  "x_goal near_goal = 4" "y_goal near_goal = 5"
  "x_current near_goal = 3" "y_current near_goal = 5" "theta_current near_goal = 0"
  "kp near_goal = 1" "ki near_goal = 0" "kd near_goal = 0.05"
  "prev_error near_goal = 0" "integral near_goal = 0"
  by (simp_all add: near_goal_def pose_callback_def TurtleNavigator_def real_arith_simps)

lemma on_goal_simps:
  "x_goal on_goal = 4" "y_goal on_goal = 5"
  "x_current on_goal = 4" "y_current on_goal = 5" "theta_current on_goal = 1 / 4"
  "kp on_goal = 1" "ki on_goal = 0" "kd on_goal = 0.05"
  "prev_error on_goal = 0" "integral on_goal = 0"
  by (simp_all add: on_goal_def pose_callback_def TurtleNavigator_def real_arith_simps)

lemma run_real_integral:
  "observes real_arith d s evs \<Longrightarrow>
   \<exists>s'. run real_arith s evs = Some s' \<and> integral s' = integral s + real (ticks evs) * d"
proof (induction evs arbitrary: s)
  case Nil
  then show ?case
    by simp
next
  case (Cons ev evs)
  show ?case
  proof (cases ev)
    case (GoalMsg msg)
    with Cons.prems have "observes real_arith d (goal_callback s msg) evs"
      by simp
    from Cons.IH[OF this] GoalMsg show ?thesis
      by (simp add: goal_callback_def)
  next
    case (PoseMsg msg)
    with Cons.prems have "observes real_arith d (pose_callback s msg) evs"
      by simp
    from Cons.IH[OF this] PoseMsg show ?thesis
      by (simp add: pose_callback_def)
  next
    case TimerTick
    obtain s1 msg where c: "control_loop real_arith s = Some (s1, msg)"
      and i: "integral s1 = integral s + distance_error real_arith s"
      by (simp add: control_loop_real)
    from Cons.prems TimerTick c have d: "distance_error real_arith s = d"
      and o: "observes real_arith d s1 evs"
      by simp_all
    from Cons.IH[OF o] obtain s' where "run real_arith s1 evs = Some s'"
      and "integral s' = integral s1 + real (ticks evs) * d"
      by blast
    with c i d TimerTick show ?thesis
      by (simp add: algebra_simps)
  qed
qed

section \<open>Binary64: rounding\<close>

lemma floor_log2_eq:
  assumes "2 powi e \<le> x" and "x < 2 powi (e + 1)"
  shows "\<lfloor>log 2 x\<rfloor> = e"
proof -
  have pos: "0 < x"
    using assms(1) by (smt (verit) zero_less_power_int)
  have lo: "2 powr (real_of_int e) = (2::real) powi e"
    by (simp add: powr_real_of_int')
  have hi: "2 powr (real_of_int e + 1) = (2::real) powi (e + 1)"
    using powr_real_of_int'[of 2 "e + 1"] by simp
  show ?thesis
    using assms pos by (simp add: floor_log_eq_powr_iff lo hi)
qed

lemma round_even_of_int: "round_even (of_int k) = k"
  by (simp add: round_even_def)

lemma round_even_ge: "of_int k \<le> x \<Longrightarrow> k \<le> round_even x"
proof -
  assume "of_int k \<le> x"
  then have "k \<le> \<lfloor>x\<rfloor>" by (simp add: le_floor_iff)
  then show ?thesis by (simp add: round_even_def Let_def)
qed

lemma round_even_le: "x \<le> of_int k \<Longrightarrow> round_even x \<le> k"
proof -
  assume le: "x \<le> of_int k"
  show ?thesis
  proof (cases "x = of_int k")
    case True
    then show ?thesis by (simp add: round_even_of_int)
  next
    case False
    with le have "x < of_int k" by simp
    then have "\<lfloor>x\<rfloor> < k" by (simp add: floor_less_iff)
    then show ?thesis by (simp add: round_even_def Let_def)
  qed
qed

lemma round_even_minus: "round_even (- x) = - round_even x"
proof (cases "x \<in> \<int>")
  case True
  then obtain k where "x = of_int k" by (auto elim: Ints_cases)
  then show ?thesis by (simp add: round_even_of_int flip: of_int_minus)
next
  case False
  have fr: "x \<noteq> of_int \<lfloor>x\<rfloor>"
  proof
    assume a: "x = of_int \<lfloor>x\<rfloor>"
    have "real_of_int \<lfloor>x\<rfloor> \<in> \<int>" by (rule Ints_of_int)
    with a False show False by metis
  qed
  then have f: "\<lfloor>- x\<rfloor> = - \<lfloor>x\<rfloor> - 1"
    by (simp add: floor_minus ceiling_altdef)
  show ?thesis
    unfolding round_even_def Let_def f
    using fr by (auto simp: algebra_simps)
qed

lemma round_even_abs_le: "\<bar>x\<bar> \<le> of_int k \<Longrightarrow> \<bar>round_even x\<bar> \<le> k"
proof -
  assume a: "\<bar>x\<bar> \<le> of_int k"
  then have "x \<le> of_int k" and "of_int (- k) \<le> x" by simp_all
  then have "round_even x \<le> k" and "- k \<le> round_even x"
    by (auto intro: round_even_le round_even_ge)
  then show ?thesis by simp
qed

lemma round_even_abs_ge: "of_int k \<le> \<bar>x\<bar> \<Longrightarrow> k \<le> \<bar>round_even x\<bar>"
proof (cases "0 \<le> x")
  case True
  assume "of_int k \<le> \<bar>x\<bar>"
  with True have "k \<le> round_even x" by (intro round_even_ge) simp
  then show ?thesis by simp
next
  case False
  assume "of_int k \<le> \<bar>x\<bar>"
  with False have "x \<le> of_int (- k)" by simp
  then have "round_even x \<le> - k" by (rule round_even_le)
  then show ?thesis by simp
qed

lemma round_even_nearest:
  assumes "of_int n - 1 / 2 < x" and "x < of_int n + 1 / 2"
  shows "round_even x = n"
proof (cases "of_int n \<le> x")
  case True
  with assms(2) have "\<lfloor>x\<rfloor> = n" by (simp add: floor_unique)
  with assms(2) show ?thesis by (simp add: round_even_def)
next
  case False
  with assms(1) have "\<lfloor>x\<rfloor> = n - 1" by (simp add: floor_unique)
  with assms(1) show ?thesis by (simp add: round_even_def)
qed

lemma b64_quantum_pos: "0 < b64_quantum x"
  by (simp add: b64_quantum_def)

lemma b64_exponent_minus: "b64_exponent (- x) = b64_exponent x"
  by (simp add: b64_exponent_def)

lemma b64_quantum_minus: "b64_quantum (- x) = b64_quantum x"
  by (simp add: b64_quantum_def b64_exponent_minus)

lemma round_b64_minus: "x \<noteq> 0 \<Longrightarrow> round_b64 (- x) = b64_neg (round_b64 x)"
  by (auto simp: round_b64_def b64_quantum_minus round_even_minus Let_def)

lemma round_b64_not_NaN: "round_b64 y \<noteq> NaN"
  by (simp add: round_b64_def Let_def)

lemma log2_floor_bounds:
  assumes "0 < x"
  shows "2 powi \<lfloor>log 2 x\<rfloor> \<le> x" and "x < 2 powi (\<lfloor>log 2 x\<rfloor> + 1)"
proof -
  let ?k = "\<lfloor>log 2 x\<rfloor>"
  have "2 powr (real_of_int ?k) \<le> x \<and> x < 2 powr (real_of_int ?k + 1)"
    using floor_log_eq_powr_iff[of x 2 ?k] assms by simp
  moreover have "2 powr (real_of_int ?k) = (2::real) powi ?k"
    by (simp add: powr_real_of_int')
  moreover have "2 powr (real_of_int ?k + 1) = (2::real) powi (?k + 1)"
    using powr_real_of_int'[of 2 "?k + 1"] by simp
  ultimately show "2 powi ?k \<le> x" and "x < 2 powi (?k + 1)"
    by simp_all
qed

text \<open>The exponent brackets the magnitude.\<close>

lemma b64_exponent_upper: "x \<noteq> 0 \<Longrightarrow> \<bar>x\<bar> < 2 powi (b64_exponent x + 1)"
proof -
  assume "x \<noteq> 0"
  then have pos: "0 < \<bar>x\<bar>" by simp
  have "\<bar>x\<bar> < 2 powi (\<lfloor>log 2 \<bar>x\<bar>\<rfloor> + 1)"
    by (rule log2_floor_bounds(2)[OF pos])
  also have "\<dots> \<le> 2 powi (b64_exponent x + 1)"
    by (rule power_int_increasing) (simp_all add: b64_exponent_def)
  finally show ?thesis .
qed

lemma b64_exponent_lower: "x \<noteq> 0 \<Longrightarrow> - 1022 < b64_exponent x \<Longrightarrow> 2 powi b64_exponent x \<le> \<bar>x\<bar>"
proof -
  assume "x \<noteq> 0" and n: "- 1022 < b64_exponent x"
  then have pos: "0 < \<bar>x\<bar>" by simp
  from n have "b64_exponent x = \<lfloor>log 2 \<bar>x\<bar>\<rfloor>"
    by (simp add: b64_exponent_def max_def split: if_splits)
  then show ?thesis
    using log2_floor_bounds(1)[OF pos] by simp
qed

lemma b64_exponent_eqI:
  assumes "2 powi e \<le> \<bar>x\<bar>" and "\<bar>x\<bar> < 2 powi (e + 1)" and "- 1022 \<le> e"
  shows "b64_exponent x = e"
proof -
  have "\<lfloor>log 2 \<bar>x\<bar>\<rfloor> = e"
    using assms(1,2) by (rule floor_log2_eq)
  with assms(3) show ?thesis
    by (simp add: b64_exponent_def)
qed

lemma b64_exponent_subnormal:
  assumes "x \<noteq> 0" and "\<bar>x\<bar> < 2 powi (- 1022)"
  shows "b64_exponent x = - 1022"
proof -
  have pos: "0 < \<bar>x\<bar>" using assms(1) by simp
  have "\<lfloor>log 2 \<bar>x\<bar>\<rfloor> < - 1022"
  proof (rule ccontr)
    assume "\<not> \<lfloor>log 2 \<bar>x\<bar>\<rfloor> < - 1022"
    then have "(2::real) powi (- 1022) \<le> 2 powi \<lfloor>log 2 \<bar>x\<bar>\<rfloor>"
      by (intro power_int_increasing) simp_all
    also have "\<dots> \<le> \<bar>x\<bar>" by (rule log2_floor_bounds(1)[OF pos])
    finally show False using assms(2) by simp
  qed
  then show ?thesis by (simp add: b64_exponent_def)
qed

lemma b64_exponent_mono:
  assumes "0 < x" and "x \<le> y"
  shows "b64_exponent x \<le> b64_exponent y"
proof -
  have "log 2 \<bar>x\<bar> \<le> log 2 \<bar>y\<bar>"
    using assms by simp
  then have "\<lfloor>log 2 \<bar>x\<bar>\<rfloor> \<le> \<lfloor>log 2 \<bar>y\<bar>\<rfloor>"
    by (rule floor_mono)
  then show ?thesis
    by (simp add: b64_exponent_def)
qed

lemma powi_two_shift: "(2::real) powi (e + 1) = 2 ^ 53 * 2 powi (e - 52)"
proof -
  have "(2::real) powi (e + 1) = 2 powi (53 + (e - 52))" by (simp add: algebra_simps)
  also have "\<dots> = 2 powi 53 * 2 powi (e - 52)"
    by (rule power_int_add) simp
  finally show ?thesis by simp
qed

lemma powi_two_shift0: "(2::real) powi e = 2 ^ 52 * 2 powi (e - 52)"
proof -
  have "(2::real) powi e = 2 powi (52 + (e - 52))" by (simp add: algebra_simps)
  also have "\<dots> = 2 powi 52 * 2 powi (e - 52)"
    by (rule power_int_add) simp
  finally show ?thesis by simp
qed

lemma powi_two_Suc: "(2::real) powi (e + 1) = 2 * 2 powi e"
  using power_int_add[of "2::real" e 1] by simp

text \<open>A multiple of its own quantum below the overflow threshold is a double.\<close>

lemma round_b64_multiple:
  assumes "x = of_int k * b64_quantum x" and "\<bar>x\<bar> < 2 ^ 1024"
  shows "round_b64 x = Fin x"
proof (cases "x = 0")
  case True
  then show ?thesis by (simp add: round_b64_def)
next
  case False
  have "x / b64_quantum x = of_int k"
    using assms(1) b64_quantum_pos[of x]
    by (metis less_irrefl nonzero_mult_div_cancel_right)
  then have "of_int (round_even (x / b64_quantum x)) * b64_quantum x = x"
    using assms(1) by (simp add: round_even_of_int)
  then show ?thesis
    using False assms(2) by (simp add: round_b64_def Let_def)
qed

text \<open>The scaled magnitude has at most 53 bits, and exactly 53 for a normal number.\<close>

lemma scaled_upper: "x \<noteq> 0 \<Longrightarrow> \<bar>x / b64_quantum x\<bar> < 2 ^ 53"
proof -
  assume "x \<noteq> 0"
  from b64_exponent_upper[OF this] have "\<bar>x\<bar> < 2 ^ 53 * b64_quantum x"
    by (simp add: powi_two_shift b64_quantum_def)
  then have "\<bar>x\<bar> / b64_quantum x < 2 ^ 53"
    using b64_quantum_pos[of x] by (simp only: pos_divide_less_eq)
  moreover have "\<bar>x / b64_quantum x\<bar> = \<bar>x\<bar> / b64_quantum x"
    using b64_quantum_pos[of x] by (simp only: abs_div_pos)
  ultimately show ?thesis by (simp only:)
qed

lemma scaled_lower: "x \<noteq> 0 \<Longrightarrow> - 1022 < b64_exponent x \<Longrightarrow> 2 ^ 52 \<le> \<bar>x / b64_quantum x\<bar>"
proof -
  assume "x \<noteq> 0" and "- 1022 < b64_exponent x"
  from b64_exponent_lower[OF this] have "2 ^ 52 * b64_quantum x \<le> \<bar>x\<bar>"
    using powi_two_shift0[of "b64_exponent x"] by (simp add: b64_quantum_def)
  then have "2 ^ 52 \<le> \<bar>x\<bar> / b64_quantum x"
    using b64_quantum_pos[of x] by (simp only: pos_le_divide_eq)
  moreover have "\<bar>x / b64_quantum x\<bar> = \<bar>x\<bar> / b64_quantum x"
    using b64_quantum_pos[of x] by (simp only: abs_div_pos)
  ultimately show ?thesis by (simp only:)
qed

text \<open>What rounding returns is a double: rounding it again changes nothing.\<close>

lemma round_b64_idem:
  assumes "round_b64 y = Fin x"
  shows "round_b64 x = Fin x"
proof (cases "x = 0")
  case True
  then show ?thesis by (simp add: round_b64_def)
next
  case False
  then have y0: "y \<noteq> 0" using assms by (auto simp: round_b64_def)
  let ?q = "b64_quantum y" and ?e = "b64_exponent y"
  let ?n = "round_even (y / b64_quantum y)"
  have qpos: "0 < ?q" by (rule b64_quantum_pos)
  from assms y0 have x: "x = of_int ?n * ?q" and fin: "\<bar>x\<bar> < 2 ^ 1024"
    by (auto simp: round_b64_def Let_def split: if_splits)
  have absx: "\<bar>x\<bar> = of_int \<bar>?n\<bar> * ?q"
    using qpos by (simp add: x abs_mult)
  have n53: "\<bar>?n\<bar> \<le> 2 ^ 53"
    using scaled_upper[OF y0] by (intro round_even_abs_le) simp
  have n0: "?n \<noteq> 0" using False x by auto
  show ?thesis
  proof (cases "\<bar>?n\<bar> = 2 ^ 53")
    case True
    then have ax: "\<bar>x\<bar> = 2 powi (?e + 1)"
      by (simp add: absx powi_two_shift b64_quantum_def)
    have "b64_exponent x = ?e + 1"
    proof (rule b64_exponent_eqI)
      show "2 powi (?e + 1) \<le> \<bar>x\<bar>" by (simp add: ax)
      have "(0::real) < 2 powi (?e + 1)" by simp
      then show "\<bar>x\<bar> < 2 powi (?e + 1 + 1)"
        unfolding ax powi_two_Suc[of "?e + 1"] by linarith
      show "- 1022 \<le> ?e + 1" by (simp add: b64_exponent_def)
    qed
    then have q': "b64_quantum x = 2 * ?q"
      using powi_two_Suc[of "?e - 52"] by (simp add: b64_quantum_def algebra_simps)
    have "even ?n" using True
      by (metis abs_eq_iff' dvd_minus_iff even_numeral even_power zero_less_numeral)
    then obtain m where m: "?n = 2 * m" by (auto elim: evenE)
    have A: "of_int m * b64_quantum x = of_int ?n * ?q"
      unfolding q' m by simp
    have "x = of_int m * b64_quantum x"
      by (rule trans[OF x A[symmetric]])
    then show ?thesis using fin by (rule round_b64_multiple)
  next
    case False
    with n53 have lt: "\<bar>?n\<bar> < 2 ^ 53" by simp
    then have "real_of_int \<bar>?n\<bar> < 2 ^ 53"
      by (metis of_int_less_numeral_power_cancel_iff)
    then have up: "\<bar>x\<bar> < 2 powi (?e + 1)"
      using qpos by (simp add: absx powi_two_shift b64_quantum_def)
    have "b64_exponent x = ?e"
    proof (cases "- 1022 < ?e")
      case True
      have "2 ^ 52 \<le> \<bar>?n\<bar>"
        using scaled_lower[OF y0 True] by (intro round_even_abs_ge) simp
      then have "(2::real) ^ 52 \<le> of_int \<bar>?n\<bar>"
        by (metis of_int_le_iff of_int_numeral of_int_power)
      then have "2 powi ?e \<le> \<bar>x\<bar>"
        using qpos powi_two_shift0[of ?e] by (simp add: absx b64_quantum_def)
      then show ?thesis using up True by (intro b64_exponent_eqI) simp_all
    next
      case False
      then have e: "?e = - 1022" by (simp add: b64_exponent_def)
      show ?thesis
      proof (cases "\<bar>x\<bar> < 2 powi (- 1022)")
        case True
        then show ?thesis using \<open>x \<noteq> 0\<close> e by (simp add: b64_exponent_subnormal)
      next
        case False
        then show ?thesis using up e by (intro b64_exponent_eqI) simp_all
      qed
    qed
    then have "b64_quantum x = ?q" by (simp add: b64_quantum_def)
    then have A: "of_int ?n * b64_quantum x = of_int ?n * ?q" by (simp only:)
    have "x = of_int ?n * b64_quantum x"
      by (rule trans[OF x A[symmetric]])
    then show ?thesis using fin by (rule round_b64_multiple)
  qed
qed

text \<open>Rounding keeps the sign.\<close>

lemma round_b64_nonneg:
  assumes "0 \<le> y"
  shows "round_b64 y = PInf \<or> (\<exists>x. round_b64 y = Fin x \<and> 0 \<le> x)"
proof (cases "y = 0")
  case True
  then show ?thesis by (simp add: round_b64_def)
next
  case False
  with assms have "0 < y" by simp
  then have "0 \<le> y / b64_quantum y"
    using b64_quantum_pos[of y] by simp
  then have "0 \<le> round_even (y / b64_quantum y)"
    by (intro round_even_ge) simp
  then have "0 \<le> real_of_int (round_even (y / b64_quantum y)) * b64_quantum y"
    using b64_quantum_pos[of y] by simp
  then show ?thesis
    using \<open>0 < y\<close> by (simp add: round_b64_def Let_def)
qed


lemma double_multiple:
  assumes "round_b64 c = Fin c" and "c \<noteq> 0"
  shows "c = of_int (round_even (c / b64_quantum c)) * b64_quantum c" and "\<bar>c\<bar> < 2 ^ 1024"
  using assms by (auto simp: round_b64_def Let_def split: if_splits)

text \<open>Rounding does not cross a double: upper bounds.\<close>

lemma round_b64_le_double:
  assumes c: "round_b64 c = Fin c" and x: "0 < x" "x \<le> c"
  shows "\<exists>r. round_b64 x = Fin r \<and> 0 \<le> r \<and> r \<le> c"
proof -
  have c0: "c \<noteq> 0" and cpos: "0 < c" using x by simp_all
  let ?qx = "b64_quantum x" and ?qc = "b64_quantum c"
  let ?n = "round_even (x / ?qx)" and ?k = "round_even (c / ?qc)"
  let ?r = "of_int ?n * ?qx"
  have qx: "0 < ?qx" and qc: "0 < ?qc" by (rule b64_quantum_pos)+
  have ck: "c = of_int ?k * ?qc" and cfin: "\<bar>c\<bar> < 2 ^ 1024"
    using double_multiple[OF c c0] by simp_all
  have n0: "0 \<le> ?n"
    using x qx by (intro round_even_ge) simp
  then have r0: "0 \<le> ?r" using qx by simp
  have ee: "b64_exponent x \<le> b64_exponent c"
    using x by (rule b64_exponent_mono)
  have rc: "?r \<le> c"
  proof (cases "b64_exponent x = b64_exponent c")
    case True
    then have q: "?qx = ?qc" by (simp add: b64_quantum_def)
    have "c / ?qc = of_int ?k"
      using ck qc by (metis less_irrefl nonzero_mult_div_cancel_right)
    then have "x / ?qx \<le> of_int ?k"
      using x qc by (simp add: q divide_right_mono)
    then have "?n \<le> ?k" by (rule round_even_le)
    then have "of_int ?n * ?qc \<le> of_int ?k * ?qc"
      using qc by (simp add: mult_right_mono)
    then show ?thesis using ck q by simp
  next
    case False
    with ee have lt: "b64_exponent x + 1 \<le> b64_exponent c" by simp
    then have norm: "- 1022 < b64_exponent c" by (simp add: b64_exponent_def)
    have "\<bar>x / ?qx\<bar> < 2 ^ 53" using scaled_upper[of x] x by simp
    then have "x / ?qx \<le> 2 ^ 53" by linarith
    then have "x / ?qx \<le> of_int (2 ^ 53)" by simp
    then have "?n \<le> 2 ^ 53" by (rule round_even_le)
    then have "real_of_int ?n \<le> 2 ^ 53"
      by (metis of_int_le_numeral_power_cancel_iff)
    then have "?r \<le> 2 ^ 53 * ?qx" using qx by (simp add: mult_right_mono)
    also have "\<dots> = 2 powi (b64_exponent x + 1)"
      by (simp add: powi_two_shift b64_quantum_def)
    also have "\<dots> \<le> 2 powi b64_exponent c"
      using lt by (intro power_int_increasing) simp_all
    also have "\<dots> \<le> \<bar>c\<bar>"
      using c0 norm by (rule b64_exponent_lower)
    finally show ?thesis using cpos by simp
  qed
  with r0 cfin cpos have "\<bar>?r\<bar> < 2 ^ 1024" by simp
  then have "round_b64 x = Fin ?r"
    using x by (simp add: round_b64_def Let_def)
  with r0 rc show ?thesis by blast
qed

text \<open>Lower bounds.\<close>

lemma round_b64_ge_double:
  assumes c: "round_b64 c = Fin c" and x: "0 < c" "c \<le> x"
  shows "round_b64 x = PInf \<or> (\<exists>r. round_b64 x = Fin r \<and> c \<le> r)"
proof -
  have c0: "c \<noteq> 0" and xpos: "0 < x" and x0: "x \<noteq> 0" using x by simp_all
  let ?qx = "b64_quantum x" and ?qc = "b64_quantum c"
  let ?n = "round_even (x / ?qx)" and ?k = "round_even (c / ?qc)"
  let ?r = "of_int ?n * ?qx"
  have qx: "0 < ?qx" and qc: "0 < ?qc" by (rule b64_quantum_pos)+
  have ck: "c = of_int ?k * ?qc"
    using double_multiple[OF c c0] by simp
  have ee: "b64_exponent c \<le> b64_exponent x"
    using x by (rule b64_exponent_mono)
  have rc: "c \<le> ?r"
  proof (cases "b64_exponent x = b64_exponent c")
    case True
    then have q: "?qx = ?qc" by (simp add: b64_quantum_def)
    have "c / ?qc = of_int ?k"
      using ck qc by (metis less_irrefl nonzero_mult_div_cancel_right)
    then have "of_int ?k \<le> x / ?qx"
      using x qc by (simp add: q divide_right_mono)
    then have "?k \<le> ?n" by (rule round_even_ge)
    then have "of_int ?k * ?qc \<le> of_int ?n * ?qc"
      using qc by (simp add: mult_right_mono)
    then show ?thesis using ck q by simp
  next
    case False
    with ee have lt: "b64_exponent c + 1 \<le> b64_exponent x" by simp
    then have norm: "- 1022 < b64_exponent x" by (simp add: b64_exponent_def)
    have "\<bar>c\<bar> < 2 powi (b64_exponent c + 1)"
      using c0 by (rule b64_exponent_upper)
    also have "\<dots> \<le> 2 powi b64_exponent x"
      using lt by (intro power_int_increasing) simp_all
    also have "\<dots> = 2 ^ 52 * ?qx"
      using powi_two_shift0[of "b64_exponent x"] by (simp add: b64_quantum_def)
    also have "\<dots> \<le> ?r"
    proof -
      have "2 ^ 52 \<le> \<bar>x / ?qx\<bar>" using scaled_lower[OF x0 norm] .
      then have "of_int (2 ^ 52) \<le> x / ?qx" using xpos qx by simp
      then have "2 ^ 52 \<le> ?n" by (rule round_even_ge)
      then have "(2::real) ^ 52 \<le> of_int ?n"
        by (metis of_int_le_iff of_int_numeral of_int_power)
      then show ?thesis using qx by (simp add: mult_right_mono)
    qed
    finally show ?thesis using x by simp
  qed
  show ?thesis
    using xpos rc by (simp add: round_b64_def Let_def)
qed

text \<open>A finite double between two doubles: rounding stays between them.\<close>

lemma round_b64_between:
  assumes lo: "round_b64 lo = Fin lo" "0 < lo" "lo \<le> x"
    and hi: "round_b64 hi = Fin hi" "x \<le> hi"
  shows "\<exists>r. round_b64 x = Fin r \<and> lo \<le> r \<and> r \<le> hi"
proof -
  have "0 < x" using lo by simp
  from round_b64_le_double[OF hi(1) this hi(2)]
  obtain r where r: "round_b64 x = Fin r" "r \<le> hi" by blast
  from round_b64_ge_double[OF lo] r(1) have "lo \<le> r" by simp
  with r show ?thesis by blast
qed

text \<open>The error of rounding: half a unit in the last place, relative to the magnitude.\<close>

lemma round_even_error: "\<bar>of_int (round_even x) - x\<bar> \<le> 1 / 2"
proof -
  define f where "f = \<lfloor>x\<rfloor>"
  have f: "of_int f \<le> x" "x < of_int f + 1"
    unfolding f_def by linarith+
  have "\<bar>of_int (if x - of_int f < 1 / 2 then f
         else if 1 / 2 < x - of_int f then f + 1
         else if even f then f else f + 1) - x\<bar> \<le> 1 / 2"
    using f by (auto simp: abs_if)
  then show ?thesis
    by (simp add: round_even_def Let_def f_def)
qed

lemma round_b64_rel_error:
  assumes lo: "2 powi (- 1022) \<le> \<bar>x\<bar>" and hi: "\<bar>x\<bar> \<le> 2 ^ 1023"
  shows "\<exists>r. round_b64 x = Fin r \<and> \<bar>r - x\<bar> \<le> \<bar>x\<bar> / 2 ^ 53"
proof -
  have x0: "x \<noteq> 0" using lo by (smt (verit) zero_less_power_int)
  let ?q = "b64_quantum x" and ?e = "b64_exponent x"
  let ?n = "round_even (x / ?q)"
  let ?r = "of_int ?n * ?q"
  have q: "0 < ?q" by (rule b64_quantum_pos)
  have ex: "2 powi ?e \<le> \<bar>x\<bar>"
  proof (cases "- 1022 < ?e")
    case True
    with x0 show ?thesis by (rule b64_exponent_lower)
  next
    case False
    then have "?e = - 1022" by (simp add: b64_exponent_def)
    with lo show ?thesis by simp
  qed
  have "\<bar>of_int ?n - x / ?q\<bar> \<le> 1 / 2" by (rule round_even_error)
  then have "\<bar>of_int ?n - x / ?q\<bar> * ?q \<le> 1 / 2 * ?q"
    using q by (intro mult_right_mono) simp_all
  moreover have "\<bar>of_int ?n - x / ?q\<bar> * ?q = \<bar>?r - x\<bar>"
  proof -
    have "\<bar>of_int ?n - x / ?q\<bar> * ?q = \<bar>(of_int ?n - x / ?q) * ?q\<bar>"
      using q by (simp add: abs_mult)
    also have "(of_int ?n - x / ?q) * ?q = ?r - x"
      using q by (simp add: algebra_simps)
    finally show ?thesis .
  qed
  ultimately have err: "\<bar>?r - x\<bar> \<le> ?q / 2" by simp
  have "?q / 2 = 2 powi ?e / 2 ^ 53"
    using powi_two_shift0[of ?e] by (simp add: b64_quantum_def)
  also have "\<dots> \<le> \<bar>x\<bar> / 2 ^ 53"
    using ex by (simp add: divide_right_mono)
  finally have qx: "?q / 2 \<le> \<bar>x\<bar> / 2 ^ 53" .
  with err have rel: "\<bar>?r - x\<bar> \<le> \<bar>x\<bar> / 2 ^ 53" by linarith
  have "\<bar>?r\<bar> \<le> \<bar>x\<bar> + \<bar>x\<bar> / 2 ^ 53" using rel by linarith
  also have "\<dots> \<le> 2 ^ 1023 + 2 ^ 1023 / 2 ^ 53"
    using hi by (intro add_mono divide_right_mono) simp_all
  also have "\<dots> < 2 ^ 1024" by simp
  finally have fin: "\<bar>?r\<bar> < 2 ^ 1024" .
  have "\<bar>x\<bar> / 2 ^ 53 < \<bar>x\<bar>" using x0 by (simp add: field_simps)
  with rel have "?r \<noteq> 0" by auto
  with fin have "round_b64 x = Fin ?r"
    using x0 by (simp add: round_b64_def Let_def)
  with rel show ?thesis by blast
qed

text \<open>The natural numbers up to \<open>2\<^sup>5\<^sup>3\<close> are doubles.\<close>

lemma round_b64_of_nat:
  assumes "n \<le> 2 ^ 53"
  shows "round_b64 (real n) = Fin (real n)"
proof (cases "n = 0")
  case True
  then show ?thesis by (simp add: round_b64_def)
next
  case False
  let ?x = "real n"
  let ?e = "b64_exponent ?x"
  have x0: "?x \<noteq> 0" and x1: "1 \<le> ?x" using False by simp_all
  have xle: "?x \<le> 2 ^ 53" using assms
    by (metis of_nat_le_iff of_nat_numeral of_nat_power)
  have up: "\<bar>?x\<bar> < 2 powi (?e + 1)" using x0 by (rule b64_exponent_upper)
  have e0: "0 \<le> ?e"
  proof (rule ccontr)
    assume "\<not> 0 \<le> ?e"
    then have "?e + 1 \<le> 0" by simp
    then have "(2::real) powi (?e + 1) \<le> 2 powi 0"
      by (intro power_int_increasing) simp_all
    with up x1 show False by simp
  qed
  then have norm: "- 1022 < ?e" by simp
  have lo: "2 powi ?e \<le> \<bar>?x\<bar>" using x0 norm by (rule b64_exponent_lower)
  have e53: "?e \<le> 53"
  proof (rule ccontr)
    assume "\<not> ?e \<le> 53"
    then have "54 \<le> ?e" by simp
    then have "(2::real) powi 54 \<le> 2 powi ?e"
      by (intro power_int_increasing) simp_all
    with lo xle show False by simp
  qed
  have fin: "\<bar>?x\<bar> < 2 ^ 1024"
  proof -
    have "\<bar>?x\<bar> \<le> 2 ^ 53" using xle by simp
    also have "\<dots> < (2::real) ^ 1024" by simp
    finally show ?thesis .
  qed
  show ?thesis
  proof (cases "?e = 53")
    case True
    with lo xle have "?x = 2 ^ 53" by simp
    moreover have "b64_quantum ?x = 2" using True by (simp add: b64_quantum_def)
    ultimately have "?x = of_int (2 ^ 52) * b64_quantum ?x" by simp
    then show ?thesis using fin by (rule round_b64_multiple)
  next
    case False
    with e53 have le: "?e \<le> 52" by simp
    define j where "j = nat (52 - ?e)"
    have j: "int j = 52 - ?e" using le by (simp add: j_def)
    have "b64_quantum ?x = 2 powi (- int j)"
      by (simp add: b64_quantum_def j)
    also have "\<dots> = 1 / 2 ^ j"
      by (simp add: power_int_minus field_simps)
    finally have q: "b64_quantum ?x = 1 / 2 ^ j" .
    have "?x = of_int (int n * 2 ^ j) * b64_quantum ?x"
      unfolding q by simp
    then show ?thesis using fin by (rule round_b64_multiple)
  qed
qed

section \<open>Binary64: evaluation\<close>

lemma round_b64_eval:
  assumes "2 powi e \<le> \<bar>x\<bar>" and "\<bar>x\<bar> < 2 powi (e + 1)" and "- 1022 \<le> e"
    and "round_even (x / 2 powi (e - 52)) = n"
    and "r = of_int n * 2 powi (e - 52)"
    and "\<bar>r\<bar> < 2 ^ 1024"
  shows "round_b64 x = Fin r"
proof -
  let ?q = "2 powi (e - 52) :: real"
  have q: "0 < ?q" by simp
  have pos: "0 < \<bar>x\<bar>"
    using assms(1) by (smt (verit) zero_less_power_int)
  have "2 ^ 52 * ?q \<le> \<bar>x\<bar>"
    using assms(1) powi_two_shift0[of e] by simp
  then have "2 ^ 52 \<le> \<bar>x\<bar> / ?q"
    using q by (simp only: pos_le_divide_eq)
  moreover have "\<bar>x / ?q\<bar> = \<bar>x\<bar> / ?q"
    using q by (simp only: abs_div_pos)
  ultimately have "of_int (2 ^ 52) \<le> \<bar>x / ?q\<bar>" by simp
  then have "2 ^ 52 \<le> \<bar>round_even (x / ?q)\<bar>" by (rule round_even_abs_ge)
  then have "n \<noteq> 0" using assms(4) by auto
  then have r0: "r \<noteq> 0" using assms(5) q by simp
  have "\<lfloor>log 2 \<bar>x\<bar>\<rfloor> = e"
    using assms(1,2) by (rule floor_log2_eq)
  then show ?thesis
    using assms pos r0 by (simp add: round_b64_def b64_quantum_def b64_exponent_def Let_def)
qed

text \<open>
  Operations on finite doubles: a difference is the rounded exact difference, and a product
  that is not zero is the rounded exact product.
\<close>

lemma b64_sub_Fin: "b64_sub (Fin x) (Fin y) = round_b64 (x - y)"
  by (simp add: b64_sub_def)

lemma b64_neg_Fin: "x \<noteq> 0 \<Longrightarrow> b64_neg (Fin x) = Fin (- x)"
  by simp

lemma b64_mul_eval:
  assumes "x * y \<noteq> 0" and "round_b64 (x * y) = Fin r"
  shows "b64_mul (Fin x) (Fin y) = Fin r"
  using assms by simp

lemma b64_atan2_Fin [simp]: "0 \<le> y \<Longrightarrow> b64_atan2 (Fin y) (Fin x) = round_b64 (atan2 y x)"
  by (simp add: b64_atan2_def)

lemma b64_zero_not_NaN [simp]: "b64_zero b \<noteq> NaN"
  by (cases b) simp_all

lemma b64_zero_cases: "b64_zero b = Fin 0 \<or> b64_zero b = NZero"
  by (cases b) simp_all

text \<open>A finite double is a zero or a finite value that rounding leaves as it is.\<close>

lemma is_finite_cases:
  assumes "is_finite u"
  obtains "u = NZero" | x where "u = Fin x" and "round_b64 x = Fin x"
  using assms by (cases u) simp_all

lemma b64_eq_zero: "b64_eq u (Fin 0) \<longleftrightarrow> u = Fin 0 \<or> u = NZero"
  by (cases u) auto

lemma b64_arith_simps:
  "d_lit b64_arith x = round_b64 x" "M_PI b64_arith = Fin (884279719003555 / 2 ^ 48)"
  "d_neg b64_arith u = b64_neg u" "d_add b64_arith u v = b64_add u v"
  "d_sub b64_arith u v = b64_sub u v" "d_mul b64_arith u v = b64_mul u v"
  "d_less b64_arith u v = b64_less u v" "d_sqrt b64_arith u = b64_sqrt u"
  "d_atan2 b64_arith u v = b64_atan2 u v"
  by (simp_all add: b64_arith_def)

lemma round_b64_0: "round_b64 0 = Fin 0"
  by (simp add: round_b64_def)

lemma round_b64_1: "round_b64 1 = Fin 1"
  by (rule round_b64_eval[where e = 0 and n = "2 ^ 52"])
     (simp_all add: round_even_def power_int_minus)

lemma round_b64_2: "round_b64 2 = Fin 2"
  by (rule round_b64_eval[where e = 1 and n = "2 ^ 52"])
     (simp_all add: round_even_def power_int_minus)

lemma round_b64_3: "round_b64 3 = Fin 3"
  by (rule round_b64_eval[where e = 1 and n = "3 * 2 ^ 51"])
     (simp_all add: round_even_def power_int_minus)

lemma round_b64_4: "round_b64 4 = Fin 4"
  by (rule round_b64_eval[where e = 2 and n = "2 ^ 52"])
     (simp_all add: round_even_def power_int_minus)

lemma round_b64_5: "round_b64 5 = Fin 5"
  by (rule round_b64_eval[where e = 2 and n = "5 * 2 ^ 50"])
     (simp_all add: round_even_def power_int_minus)

lemma round_b64_8: "round_b64 8 = Fin 8"
  by (rule round_b64_eval[where e = 3 and n = "2 ^ 52"])
     (simp_all add: round_even_def power_int_minus)

lemma round_b64_16: "round_b64 16 = Fin 16"
  by (rule round_b64_eval[where e = 4 and n = "2 ^ 52"])
     (simp_all add: round_even_def power_int_minus)

lemma round_b64_25: "round_b64 25 = Fin 25"
  by (rule round_b64_eval[where e = 4 and n = "25 * 2 ^ 48"])
     (simp_all add: round_even_def power_int_minus)

lemma round_b64_41: "round_b64 41 = Fin 41"
  by (rule round_b64_eval[where e = 5 and n = "41 * 2 ^ 47"])
     (simp_all add: round_even_def power_int_minus)

lemma round_b64_3_4: "round_b64 (3 / 4) = Fin (3 / 4)"
  by (rule round_b64_eval[where e = "- 1" and n = "3 * 2 ^ 51"])
     (simp_all add: round_even_def power_int_minus)

lemma round_b64_3670: "round_b64 (3670 / 2 ^ 12) = Fin (3670 / 2 ^ 12)"
  by (rule round_b64_eval[where e = "- 1" and n = "3670 * 2 ^ 41"])
     (simp_all add: round_even_def power_int_minus)

lemma round_b64_3671: "round_b64 (3671 / 2 ^ 12) = Fin (3671 / 2 ^ 12)"
  by (rule round_b64_eval[where e = "- 1" and n = "3671 * 2 ^ 41"])
     (simp_all add: round_even_def power_int_minus)

lemma round_b64_3670_4: "round_b64 (3670 / 2 ^ 10) = Fin (3670 / 2 ^ 10)"
  by (rule round_b64_eval[where e = 1 and n = "3670 * 2 ^ 41"])
     (simp_all add: round_even_def power_int_minus)

lemma round_b64_3671_4: "round_b64 (3671 / 2 ^ 10) = Fin (3671 / 2 ^ 10)"
  by (rule round_b64_eval[where e = 1 and n = "3671 * 2 ^ 41"])
     (simp_all add: round_even_def power_int_minus)

lemma round_b64_1_4: "round_b64 (1 / 4) = Fin (1 / 4)"
  by (rule round_b64_eval[where e = "- 2" and n = "2 ^ 52"])
     (simp_all add: round_even_def power_int_minus)

lemma round_b64_minus_1: "round_b64 (- 1) = Fin (- 1)"
  by (rule round_b64_eval[where e = 0 and n = "- (2 ^ 52)"])
     (simp_all add: round_even_def power_int_minus)


lemma round_b64_minus_two60: "round_b64 (- (2 ^ 60)) = Fin (- (2 ^ 60))"
  by (rule round_b64_eval[where e = 60 and n = "- (2 ^ 52)"])
     (simp_all add: round_even_def power_int_minus)

text \<open>The literal \<^verbatim>\<open>0.05\<close> is the double \<open>3602879701896397 / 2\<^sup>5\<^sup>6\<close>.\<close>

lemma round_b64_kd: "round_b64 (1 / 20) = Fin (3602879701896397 / 2 ^ 56)"
  by (rule round_b64_eval[where e = "- 5" and n = "7205759403792794"])
     (simp_all add: round_even_def power_int_minus)

lemma round_b64_kd_double:
  "round_b64 (3602879701896397 / 2 ^ 56) = Fin (3602879701896397 / 2 ^ 56)"
  by (rule round_b64_eval[where e = "- 5" and n = "7205759403792794"])
     (simp_all add: round_even_def power_int_minus)


text \<open>\<^verbatim>\<open>2 * M_PI\<close> is exact.\<close>

lemma b64_two_pi:
  "b64_mul (Fin 2) (Fin (884279719003555 / 2 ^ 48)) = Fin (884279719003555 / 2 ^ 47)"
  by (rule b64_mul_eval, simp, rule round_b64_eval[where e = 2 and n = "884279719003555 * 8"])
     (simp_all add: round_even_def power_int_minus)

lemma b64_two_pi_arith:
  "d_mul b64_arith (d_lit b64_arith 2) (M_PI b64_arith) = Fin (884279719003555 / 2 ^ 47)"
  by (simp only: b64_arith_def arith.simps round_b64_2 b64_two_pi)

section \<open>Binary64: the normalisation loops\<close>

text \<open>Sums and differences of values that are not NaN, one of them finite, are not NaN.\<close>

lemma b64_add_Fin_not_NaN: "u \<noteq> NaN \<Longrightarrow> b64_add u (Fin y) \<noteq> NaN"
  by (cases u) (simp_all add: round_b64_not_NaN)

lemma b64_add_NZero_not_NaN: "u \<noteq> NaN \<Longrightarrow> b64_add u NZero \<noteq> NaN"
  by (cases u) (simp_all add: round_b64_not_NaN)

lemma b64_sub_Fin_not_NaN: "u \<noteq> NaN \<Longrightarrow> b64_sub u (Fin y) \<noteq> NaN"
  by (simp add: b64_sub_def b64_add_Fin_not_NaN b64_add_NZero_not_NaN)

lemma b64_sub_finite_not_NaN: "u \<noteq> NaN \<Longrightarrow> is_finite v \<Longrightarrow> b64_sub u v \<noteq> NaN"
  by (cases v) (simp_all add: b64_sub_def b64_add_Fin_not_NaN b64_add_NZero_not_NaN)

lemma is_finite_not_NaN: "is_finite u \<Longrightarrow> u \<noteq> NaN"
  by (cases u) simp_all

lemma b64_add_Fin_left_not_NaN: "u \<noteq> NaN \<Longrightarrow> b64_add (Fin x) u \<noteq> NaN"
  by (cases u) (simp_all add: round_b64_not_NaN)

lemma b64_mul_Fin_not_NaN: "u \<noteq> NaN \<Longrightarrow> c \<noteq> 0 \<Longrightarrow> b64_mul (Fin c) u \<noteq> NaN"
  by (cases u) (simp_all add: round_b64_not_NaN b64_inf_def)

lemma b64_neg_not_NaN: "u \<noteq> NaN \<Longrightarrow> b64_neg u \<noteq> NaN"
  by (cases u) simp_all

lemma normalize_b64_not_NaN:
  assumes "normalize_angle b64_arith a = Some r" and "a \<noteq> NaN"
  shows "r \<noteq> NaN"
proof -
  from assms(1) obtain b where d: "wrap_down b64_arith a = Some b" and u: "wrap_up b64_arith b = Some r"
    by (auto simp: normalize_angle_def split: option.splits)
  have "b \<noteq> NaN"
    by (rule wrap_down_invariant[OF d, where I = "\<lambda>v. v \<noteq> NaN"])
       (simp_all add: assms(2) b64_two_pi_arith b64_arith_simps(5) b64_sub_Fin_not_NaN)
  then show ?thesis
    by (intro wrap_up_invariant[OF u, where I = "\<lambda>v. v \<noteq> NaN"])
       (simp_all add: b64_two_pi_arith b64_arith_simps(4) b64_add_Fin_not_NaN)
qed


text \<open>A heading error between \<^verbatim>\<open>-M_PI\<close> and \<^verbatim>\<open>M_PI\<close> passes both loops as it is.\<close>

lemma normalize_b64_id:
  assumes "- (884279719003555 / 2 ^ 48) \<le> r" and "r \<le> 884279719003555 / 2 ^ 48"
  shows "normalize_angle b64_arith (Fin r) = Some (Fin r)"
proof -
  have "wrap_down b64_arith (Fin r) = Some (Fin r)"
    using assms(2) by (subst wrap_down.simps) (simp add: b64_arith_simps)
  moreover have "wrap_up b64_arith (Fin r) = Some (Fin r)"
    using assms(1) by (subst wrap_up.simps) (simp add: b64_arith_simps)
  ultimately show ?thesis by (simp add: normalize_angle_def)
qed

subsection \<open>Heading errors on which the loops return\<close>

text \<open>Rounding stays between natural numbers up to \<open>2\<^sup>5\<^sup>3\<close>, which are doubles.\<close>

lemma round_b64_within_nat:
  assumes lo: "- real a \<le> y" and hi: "y \<le> real b" and a: "a \<le> 2 ^ 53" and b: "b \<le> 2 ^ 53"
  shows "b64_within (- real a) (real b) (round_b64 y)"
proof -
  consider "0 < y" | "y = 0" | "y < 0" by linarith
  then show ?thesis
  proof cases
    case 1
    from round_b64_le_double[OF round_b64_of_nat[OF b] 1 hi]
    obtain r where "round_b64 y = Fin r" "0 \<le> r" "r \<le> real b" by blast
    then show ?thesis by simp
  next
    case 2
    then show ?thesis using hi by (simp add: round_b64_def)
  next
    case 3
    then have "0 < - y" and "- y \<le> real a" using lo by simp_all
    from round_b64_le_double[OF round_b64_of_nat[OF a] this]
    obtain r where r: "round_b64 (- y) = Fin r" "0 \<le> r" "r \<le> real a" by blast
    have "round_b64 y = b64_neg (round_b64 (- y))"
      using round_b64_minus[of "- y"] 3 by simp
    then show ?thesis using r 3 hi by (simp add: r(1))
  qed
qed

text \<open>
  The first loop returns on every heading error up to \<open>2\<^sup>5\<^sup>3\<close>: up to there a subtraction of
  \<^verbatim>\<open>2 * M_PI\<close> lowers the heading error by more than one.
\<close>

lemma wrap_down_b64_returns:
  "n \<le> 2 ^ 53 \<Longrightarrow> b64_within (- real 4) (real n) v \<Longrightarrow>
   \<exists>r. wrap_down b64_arith v = Some r \<and> b64_within (- real 4) (real 4) r"
proof (induction n arbitrary: v)
  case 0
  then have "\<not> d_less b64_arith (M_PI b64_arith) v"
    by (cases v) (simp_all add: b64_arith_simps)
  then have "wrap_down b64_arith v = Some v"
    by (subst wrap_down.simps) simp
  with 0 show ?case by (cases v) simp_all
next
  case (Suc n)
  show ?case
  proof (cases "d_less b64_arith (M_PI b64_arith) v")
    case False
    then have "wrap_down b64_arith v = Some v"
      by (subst wrap_down.simps) simp
    moreover have "b64_within (- real 4) (real 4) v"
      using False Suc.prems(2) by (cases v) (simp_all add: b64_arith_simps)
    ultimately show ?thesis by simp
  next
    case True
    then obtain x where v: "v = Fin x" and x: "884279719003555 / 2 ^ 48 < x"
      using Suc.prems(2) by (cases v) (simp_all add: b64_arith_simps)
    from Suc.prems(2) have xn: "x \<le> real n + 1" by (simp add: v)
    let ?y = "x - 884279719003555 / 2 ^ 47"
    have "- real 4 \<le> ?y" using x by simp
    moreover have "?y \<le> real n" using xn by simp
    moreover have "n \<le> 2 ^ 53" using Suc.prems(1) by simp
    ultimately have "b64_within (- real 4) (real n) (round_b64 ?y)"
      by (intro round_b64_within_nat) simp_all
    from Suc.IH[OF \<open>n \<le> 2 ^ 53\<close> this]
    obtain r where r: "wrap_down b64_arith (round_b64 ?y) = Some r"
      and w: "b64_within (- real 4) (real 4) r" by blast
    have "d_sub b64_arith v (d_mul b64_arith (d_lit b64_arith 2) (M_PI b64_arith))
        = round_b64 ?y"
      unfolding b64_two_pi_arith by (simp only: b64_arith_simps v b64_sub_Fin)
    then have "wrap_down b64_arith v = Some r"
      using True r by (subst wrap_down.simps) simp
    with w show ?thesis by blast
  qed
qed

text \<open>So does the second loop on every heading error down to \<open>-2\<^sup>5\<^sup>3\<close>.\<close>

lemma wrap_up_b64_returns:
  "n \<le> 2 ^ 53 \<Longrightarrow> b64_within (- real n) (real 4) v \<Longrightarrow> \<exists>r. wrap_up b64_arith v = Some r"
proof (induction n arbitrary: v)
  case 0
  then have "\<not> d_less b64_arith v (d_neg b64_arith (M_PI b64_arith))"
    by (cases v) (simp_all add: b64_arith_simps)
  then have "wrap_up b64_arith v = Some v"
    by (subst wrap_up.simps) simp
  then show ?case by simp
next
  case (Suc n)
  show ?case
  proof (cases "d_less b64_arith v (d_neg b64_arith (M_PI b64_arith))")
    case False
    then have "wrap_up b64_arith v = Some v"
      by (subst wrap_up.simps) simp
    then show ?thesis by simp
  next
    case True
    then obtain x where v: "v = Fin x" and x: "x < - (884279719003555 / 2 ^ 48)"
      using Suc.prems(2) by (cases v) (simp_all add: b64_arith_simps)
    from Suc.prems(2) have xn: "- real n - 1 \<le> x" by (simp add: v)
    let ?y = "x + 884279719003555 / 2 ^ 47"
    have "?y \<le> real 4" using x by simp
    moreover have "- real n \<le> ?y" using xn by simp
    moreover have "n \<le> 2 ^ 53" using Suc.prems(1) by simp
    ultimately have "b64_within (- real n) (real 4) (round_b64 ?y)"
      by (intro round_b64_within_nat) simp_all
    from Suc.IH[OF \<open>n \<le> 2 ^ 53\<close> this]
    obtain r where r: "wrap_up b64_arith (round_b64 ?y) = Some r" by blast
    have "d_add b64_arith v (d_mul b64_arith (d_lit b64_arith 2) (M_PI b64_arith))
        = round_b64 ?y"
      unfolding b64_two_pi_arith by (simp only: b64_arith_simps v b64_add.simps)
    then have "wrap_up b64_arith v = Some r"
      using True r by (subst wrap_up.simps) simp
    then show ?thesis by blast
  qed
qed

text \<open>
  The normalisation returns on every heading error of magnitude at most \<open>2\<^sup>5\<^sup>3\<close>.
\<close>

lemma normalize_b64_returns:
  assumes "b64_within (- (2 ^ 53)) (2 ^ 53) v"
  shows "\<exists>r. normalize_angle b64_arith v = Some r"
proof -
  have n: "real ((2::nat) ^ 53) = 2 ^ 53" by simp
  have "\<exists>b. wrap_down b64_arith v = Some b \<and> b64_within (- real (2 ^ 53)) (real 4) b"
  proof (cases "d_less b64_arith (M_PI b64_arith) v")
    case False
    then have "wrap_down b64_arith v = Some v"
      by (subst wrap_down.simps) simp
    moreover have "b64_within (- real (2 ^ 53)) (real 4) v"
      using False assms by (cases v) (simp_all add: b64_arith_simps)
    ultimately show ?thesis by simp
  next
    case True
    then have "b64_within (- real 4) (real (2 ^ 53)) v"
      using assms by (cases v) (simp_all add: b64_arith_simps)
    from wrap_down_b64_returns[OF _ this]
    obtain b where "wrap_down b64_arith v = Some b" and "b64_within (- real 4) (real 4) b"
      by auto
    moreover from this(2) have "b64_within (- real (2 ^ 53)) (real 4) b"
      by (cases b) simp_all
    ultimately show ?thesis by blast
  qed
  then obtain b where b: "wrap_down b64_arith v = Some b"
    and w: "b64_within (- real (2 ^ 53)) (real 4) b" by blast
  from wrap_up_b64_returns[OF _ w] obtain r where "wrap_up b64_arith b = Some r" by auto
  with b show ?thesis by (simp add: normalize_angle_def)
qed

subsection \<open>The inputs \<open>-3\<pi>\<close> and \<open>5\<pi>\<close>\<close>








subsection \<open>A loop that does not return\<close>

text \<open>
  Doubles between \<open>2\<^sup>5\<^sup>9\<close> and \<open>2\<^sup>6\<^sup>0\<close> are \<open>128\<close> apart, and \<^verbatim>\<open>2 * M_PI\<close> is less than
  half of that: the difference rounds back to \<open>2\<^sup>6\<^sup>0\<close>.
\<close>

lemma b64_sub_absorbed:
  "b64_sub (Fin (2 ^ 60)) (Fin (884279719003555 / 2 ^ 47)) = Fin (2 ^ 60)"
  unfolding b64_sub_Fin
  by (rule round_b64_eval[where e = 59 and n = "2 ^ 53"])
     (simp_all add: round_even_def power_int_minus)

lemma b64_sub_from_zero: "b64_sub (Fin 0) (Fin (- (2 ^ 60))) = Fin (2 ^ 60)"
  unfolding b64_sub_Fin
  by (rule round_b64_eval[where e = 60 and n = "2 ^ 52"])
     (simp_all add: round_even_def power_int_minus)

lemma wrap_down_b64_two60: "wrap_down b64_arith (Fin (2 ^ 60)) = None"
proof (rule wrap_down_stuck)
  show "d_less b64_arith (M_PI b64_arith) (Fin (2 ^ 60))"
    by (simp add: b64_arith_def)
  show "d_sub b64_arith (Fin (2 ^ 60))
          (d_mul b64_arith (d_lit b64_arith 2) (M_PI b64_arith)) = Fin (2 ^ 60)"
    unfolding b64_two_pi_arith
    by (simp only: b64_arith_def arith.simps b64_sub_absorbed)
qed

lemma far_heading_fields:
  "x_goal far_heading = Fin 4" "y_goal far_heading = Fin 5"
  "x_current far_heading = Fin 3" "y_current far_heading = Fin 5"
  "theta_current far_heading = Fin (- (2 ^ 60))"
  "kp far_heading = Fin 1" "ki far_heading = Fin 0"
  "kd far_heading = Fin (3602879701896397 / 2 ^ 56)"
  "prev_error far_heading = Fin 0" "integral far_heading = Fin 0"
  by (simp_all add: far_heading_def pose_callback_def TurtleNavigator_def b64_arith_def
      round_b64_0 round_b64_1 round_b64_4 round_b64_5 round_b64_kd)

lemma far_heading_angle_error:
  "d_sub b64_arith
     (d_atan2 b64_arith (d_sub b64_arith (y_goal far_heading) (y_current far_heading))
                        (d_sub b64_arith (x_goal far_heading) (x_current far_heading)))
     (theta_current far_heading) = Fin (2 ^ 60)"
proof -
  have ey: "d_sub b64_arith (y_goal far_heading) (y_current far_heading) = Fin 0"
    by (simp add: far_heading_def pose_callback_def TurtleNavigator_def b64_arith_def
        b64_sub_def round_b64_5 round_b64_0)
  have ex: "d_sub b64_arith (x_goal far_heading) (x_current far_heading) = Fin 1"
    by (simp add: far_heading_def pose_callback_def TurtleNavigator_def b64_arith_def
        b64_sub_def round_b64_4 round_b64_1)
  have at: "d_atan2 b64_arith (Fin 0) (Fin 1) = Fin 0"
    by (simp add: b64_arith_def atan2_def round_b64_0)
  have th: "theta_current far_heading = Fin (- (2 ^ 60))"
    by (simp add: far_heading_def pose_callback_def)
  have "d_sub b64_arith (Fin 0) (Fin (- (2 ^ 60))) = Fin (2 ^ 60)"
    by (simp only: b64_arith_def arith.simps b64_sub_from_zero)
  then show ?thesis
    by (simp only: ey ex at th)
qed

section \<open>Binary64: the control cycle\<close>

lemma clamp_b64_within:
  assumes "v \<noteq> NaN"
  shows "b64_within (- 2) 2 (clamp b64_arith v (d_neg b64_arith (d_lit b64_arith 2)) (d_lit b64_arith 2))"
  using assms by (cases v) (simp_all add: clamp_def b64_arith_simps round_b64_2)

lemma saturated_clamp_b64:
  "saturated b64_arith v (clamp b64_arith v (d_neg b64_arith (d_lit b64_arith 2)) (d_lit b64_arith 2))"
  by (cases v) (simp_all add: saturated_def clamp_def b64_arith_simps round_b64_2)

text \<open>Squares, their sums and the square roots of these are not negative.\<close>

lemma b64_square_nonneg:
  assumes "u \<noteq> NaN"
  shows "b64_mul u u = PInf \<or> (\<exists>x. b64_mul u u = Fin x \<and> 0 \<le> x)"
proof (cases u)
  case (Fin x)
  show ?thesis
  proof (cases "x * x = 0")
    case True
    then show ?thesis by (simp add: Fin)
  next
    case False
    have "0 \<le> x * x" by simp
    from round_b64_nonneg[OF this] False show ?thesis by (simp add: Fin)
  qed
qed (use assms in simp_all)

lemma b64_add_nonneg:
  assumes "u = PInf \<or> (\<exists>x. u = Fin x \<and> 0 \<le> x)" and "v = PInf \<or> (\<exists>y. v = Fin y \<and> 0 \<le> y)"
  shows "b64_add u v = PInf \<or> (\<exists>z. b64_add u v = Fin z \<and> 0 \<le> z)"
  using assms
proof (elim disjE exE conjE)
  fix x y
  assume u: "u = Fin x" and v: "v = Fin y" and "0 \<le> x" and "0 \<le> y"
  then have "0 \<le> x + y" by simp
  from round_b64_nonneg[OF this] show ?thesis by (simp add: u v)
qed simp_all

lemma b64_sqrt_distance:
  assumes "u = PInf \<or> (\<exists>x. u = Fin x \<and> 0 \<le> x)"
  shows "b64_sqrt u = PInf \<or> (\<exists>x. b64_sqrt u = Fin x \<and> 0 \<le> x \<and> round_b64 x = Fin x)"
  using assms
proof (elim disjE exE conjE)
  fix x
  assume u: "u = Fin x" and "0 \<le> x"
  then have "0 \<le> sqrt x" by simp
  from round_b64_nonneg[OF this] show ?thesis
  proof
    assume "round_b64 (sqrt x) = PInf"
    then show ?thesis using \<open>0 \<le> x\<close> by (simp add: u)
  next
    assume "\<exists>z. round_b64 (sqrt x) = Fin z \<and> 0 \<le> z"
    then obtain z where z: "round_b64 (sqrt x) = Fin z" "0 \<le> z" by blast
    from z(1) have "round_b64 z = Fin z" by (rule round_b64_idem)
    with z show ?thesis using \<open>0 \<le> x\<close> by (simp add: u)
  qed
qed simp

lemma distance_error_b64:
  assumes "finite_state s"
  shows "distance_error b64_arith s = PInf
       \<or> (\<exists>x. distance_error b64_arith s = Fin x \<and> 0 \<le> x \<and> round_b64 x = Fin x)"
proof -
  from assms have f: "is_finite (x_goal s)" "is_finite (x_current s)"
      "is_finite (y_goal s)" "is_finite (y_current s)"
    by (simp_all add: finite_state_def)
  have "b64_sub (x_goal s) (x_current s) \<noteq> NaN" "b64_sub (y_goal s) (y_current s) \<noteq> NaN"
    using f by (simp_all add: b64_sub_finite_not_NaN is_finite_not_NaN)
  then show ?thesis
    unfolding distance_error_def b64_arith_simps
    by (intro b64_sqrt_distance b64_add_nonneg b64_square_nonneg)
qed

lemma atan2_upper_not_NaN:
  "u = PInf \<or> (\<exists>y. u = Fin y) \<Longrightarrow> v \<noteq> NaN \<Longrightarrow> atan2_upper u v \<noteq> NaN"
  by (cases u; cases v) (auto simp: round_b64_not_NaN)

lemma b64_atan2_not_NaN:
  assumes "u \<noteq> NaN" and "v \<noteq> NaN"
  shows "b64_atan2 u v \<noteq> NaN"
proof -
  have up: "atan2_upper w v \<noteq> NaN" if "w = PInf \<or> (\<exists>y. w = Fin y)" for w
    using that assms(2) by (rule atan2_upper_not_NaN)
  show ?thesis
    using assms by (cases u) (simp_all add: b64_atan2_def b64_neg_not_NaN up)
qed

lemma angle_error_b64_not_NaN:
  assumes "finite_state s"
  shows "angle_error b64_arith s \<noteq> NaN"
proof -
  from assms have f: "is_finite (x_goal s)" "is_finite (x_current s)"
      "is_finite (y_goal s)" "is_finite (y_current s)" "is_finite (theta_current s)"
    by (simp_all add: finite_state_def)
  have e: "b64_sub (x_goal s) (x_current s) \<noteq> NaN" "b64_sub (y_goal s) (y_current s) \<noteq> NaN"
    using f by (simp_all add: b64_sub_finite_not_NaN is_finite_not_NaN)
  have "b64_atan2 (b64_sub (y_goal s) (y_current s)) (b64_sub (x_goal s) (x_current s)) \<noteq> NaN"
    using e(2) e(1) by (rule b64_atan2_not_NaN)
  then show ?thesis
    unfolding angle_error_def b64_arith_simps
    using f(5) by (rule b64_sub_finite_not_NaN)
qed

lemma constructed_gains_b64:
  assumes "constructed_gains b64_arith s"
  shows "kp s = Fin 1" "ki s = Fin 0" "kd s = Fin (3602879701896397 / 2 ^ 56)"
  using assms
  by (simp_all add: constructed_gains_def b64_arith_simps round_b64_0 round_b64_1 round_b64_kd)

lemma pid_signal_b64_not_NaN:
  assumes fin: "finite_state s" and gains: "constructed_gains b64_arith s"
  shows "pid_signal b64_arith s \<noteq> NaN"
proof -
  let ?kd = "3602879701896397 / 2 ^ 56 :: real"
  from fin have fi: "is_finite (integral s)" and fp: "is_finite (prev_error s)"
    by (simp_all add: finite_state_def)
  note g = constructed_gains_b64[OF gains]
  have t2: "b64_mul (Fin 0) (integral s) = Fin 0 \<or> b64_mul (Fin 0) (integral s) = NZero"
    using fi by (cases "integral s") (simp_all add: b64_zero_cases)
  from distance_error_b64[OF fin] show ?thesis
  proof
    assume d: "distance_error b64_arith s = PInf"
    have "b64_sub PInf (prev_error s) = PInf"
      using fp by (cases "prev_error s") (simp_all add: b64_sub_def)
    then show ?thesis
      unfolding pid_signal_def b64_arith_simps d g
      using t2 by (auto simp: b64_inf_def)
  next
    assume "\<exists>x. distance_error b64_arith s = Fin x \<and> 0 \<le> x \<and> round_b64 x = Fin x"
    then obtain x where d: "distance_error b64_arith s = Fin x" and r: "round_b64 x = Fin x"
      by blast
    have t1: "b64_mul (Fin 1) (Fin x) = Fin x" by (simp add: r)
    have t12: "b64_add (Fin x) (b64_mul (Fin 0) (integral s)) = Fin x"
      using t2 by (auto simp: r)
    have "b64_sub (Fin x) (prev_error s) \<noteq> NaN"
      using fp by (intro b64_sub_finite_not_NaN) simp_all
    then have "b64_mul (Fin ?kd) (b64_sub (Fin x) (prev_error s)) \<noteq> NaN"
      by (intro b64_mul_Fin_not_NaN) simp_all
    then have "b64_add (Fin x) (b64_mul (Fin ?kd) (b64_sub (Fin x) (prev_error s))) \<noteq> NaN"
      by (rule b64_add_Fin_left_not_NaN)
    then show ?thesis
      unfolding pid_signal_def b64_arith_simps d g t1 t12 .
  qed
qed

text \<open>
  In binary64, a control cycle of a node of finite doubles with the constructor's gains, if it
  returns, publishes finite speeds within the limits.
\<close>

lemma limits_hold_b64:
  assumes fin: "finite_state s" and gains: "constructed_gains b64_arith s"
    and ret: "control_loop b64_arith s = Some (s', msg)"
  shows "b64_within (- 2) 2 (linear_x msg)" and "b64_within (- 2) 2 (angular_z msg)"
    and "saturated b64_arith (pid_signal b64_arith s) (linear_x msg)"
    and "\<exists>a. normalize_angle b64_arith (angle_error b64_arith s) = Some a
           \<and> saturated b64_arith (d_mul b64_arith (d_lit b64_arith 4) a) (angular_z msg)"
proof -
  from ret obtain a where a: "normalize_angle b64_arith (angle_error b64_arith s) = Some a"
    and l: "linear_x msg =
        clamp b64_arith (pid_signal b64_arith s) (d_neg b64_arith (d_lit b64_arith 2)) (d_lit b64_arith 2)"
    and z: "angular_z msg =
        clamp b64_arith (d_mul b64_arith (d_lit b64_arith 4) a)
          (d_neg b64_arith (d_lit b64_arith 2)) (d_lit b64_arith 2)"
    by (auto simp: control_loop_eq split: option.splits)
  show "b64_within (- 2) 2 (linear_x msg)"
    unfolding l by (rule clamp_b64_within) (rule pid_signal_b64_not_NaN[OF fin gains])
  have "a \<noteq> NaN"
    using a angle_error_b64_not_NaN[OF fin] by (rule normalize_b64_not_NaN)
  then have "d_mul b64_arith (d_lit b64_arith 4) a \<noteq> NaN"
    by (simp add: b64_arith_simps round_b64_4 b64_mul_Fin_not_NaN)
  then show "b64_within (- 2) 2 (angular_z msg)"
    unfolding z by (rule clamp_b64_within)
  show "saturated b64_arith (pid_signal b64_arith s) (linear_x msg)"
    unfolding l by (rule saturated_clamp_b64)
  show "\<exists>a. normalize_angle b64_arith (angle_error b64_arith s) = Some a
           \<and> saturated b64_arith (d_mul b64_arith (d_lit b64_arith 4) a) (angular_z msg)"
    using a unfolding z by (blast intro: saturated_clamp_b64)
qed

subsection \<open>The end-to-end scenario in binary64\<close>

text \<open>The double nearest to \<open>sqrt 41\<close>.\<close>

lemma round_b64_sqrt_41: "round_b64 (sqrt 41) = Fin (28161238212607 / 2 ^ 42)"
proof (rule round_b64_eval[where e = 2 and n = 7209276982427392])
  have lo: "6 < sqrt 41" by (rule real_less_rsqrt) simp
  have hi: "sqrt 41 < 7" by (rule real_less_lsqrt) simp_all
  show "2 powi 2 \<le> \<bar>sqrt 41\<bar>" using lo by simp
  show "\<bar>sqrt 41\<bar> < 2 powi (2 + 1)" using hi by simp
  have a: "(7209276982427392 - 1 / 2) / 2 ^ 50 < sqrt 41"
    by (rule real_less_rsqrt) (simp add: power2_eq_square)
  have b: "sqrt 41 < (7209276982427392 + 1 / 2) / 2 ^ 50"
    by (rule real_less_lsqrt) (simp_all add: power2_eq_square)
  show "round_even (sqrt 41 / 2 powi (2 - 52)) = 7209276982427392"
    using a b by (intro round_even_nearest) (simp_all add: power_int_minus field_simps)
qed (simp_all add: power_int_minus)

lemma at_origin_b64_fields:
  "x_goal (at_origin_b64 mem) = Fin 4" "y_goal (at_origin_b64 mem) = Fin 5"
  "x_current (at_origin_b64 mem) = Fin 0" "y_current (at_origin_b64 mem) = Fin 0"
  "theta_current (at_origin_b64 mem) = Fin 0"
  "kp (at_origin_b64 mem) = Fin 1" "ki (at_origin_b64 mem) = Fin 0"
  "kd (at_origin_b64 mem) = Fin (3602879701896397 / 2 ^ 56)"
  "prev_error (at_origin_b64 mem) = Fin 0" "integral (at_origin_b64 mem) = Fin 0"
  by (simp_all add: at_origin_b64_def pose_callback_def TurtleNavigator_def b64_arith_simps
      round_b64_0 round_b64_1 round_b64_4 round_b64_5 round_b64_kd)

lemma at_origin_b64_distance:
  "distance_error b64_arith (at_origin_b64 mem) = Fin (28161238212607 / 2 ^ 42)"
proof -
  have ex: "b64_sub (Fin 4) (Fin 0) = Fin 4" by (simp add: b64_sub_def round_b64_4)
  have ey: "b64_sub (Fin 5) (Fin 0) = Fin 5" by (simp add: b64_sub_def round_b64_5)
  have sx: "b64_mul (Fin 4) (Fin 4) = Fin 16" by (simp add: round_b64_16)
  have sy: "b64_mul (Fin 5) (Fin 5) = Fin 25" by (simp add: round_b64_25)
  have su: "b64_add (Fin 16) (Fin 25) = Fin 41" by (simp add: round_b64_41)
  have sq: "b64_sqrt (Fin 41) = Fin (28161238212607 / 2 ^ 42)" by (simp add: round_b64_sqrt_41)
  show ?thesis
    unfolding distance_error_def b64_arith_simps at_origin_b64_fields ex ey sx sy su sq ..
qed

text \<open>The product \<^verbatim>\<open>kd_ * distance_error\<close> and the sum that is the control signal.\<close>

lemma at_origin_b64_derivative:
  "b64_mul (Fin (3602879701896397 / 2 ^ 56)) (Fin (28161238212607 / 2 ^ 42))
     = Fin (2883710792970957 / 2 ^ 53)"
  by (rule b64_mul_eval, simp, rule round_b64_eval[where e = "- 2" and n = 5767421585941914])
     (simp_all add: round_even_def power_int_minus)

lemma at_origin_b64_sum:
  "b64_add (Fin (28161238212607 / 2 ^ 42)) (Fin (2883710792970957 / 2 ^ 53))
     = Fin (3784870415774381 / 2 ^ 49)"
  unfolding b64_add.simps
  by (rule round_b64_eval[where e = 2 and n = 7569740831548762])
     (simp_all add: round_even_def power_int_minus)

lemma at_origin_b64_signal:
  "pid_signal b64_arith (at_origin_b64 mem) = Fin (3784870415774381 / 2 ^ 49)"
proof -
  let ?d = "28161238212607 / 2 ^ 42 :: real"
  have r: "round_b64 ?d = Fin ?d"
    using round_b64_sqrt_41 by (rule round_b64_idem)
  have t1: "b64_mul (Fin 1) (Fin ?d) = Fin ?d" using r by simp
  have t2: "b64_mul (Fin 0) (Fin 0) = Fin 0" by (simp add: round_b64_0)
  have t12: "b64_add (Fin ?d) (Fin 0) = Fin ?d" using r by simp
  have df: "b64_sub (Fin ?d) (Fin 0) = Fin ?d" using r by (simp add: b64_sub_def)
  show ?thesis
    unfolding pid_signal_def at_origin_b64_distance b64_arith_simps at_origin_b64_fields
      t1 t2 t12 df at_origin_b64_derivative at_origin_b64_sum ..
qed

text \<open>The heading error of the scenario is a finite double between \<open>3/4\<close> and \<open>2\<close>.\<close>

lemma at_origin_b64_angle:
  "\<exists>r. angle_error b64_arith (at_origin_b64 mem) = Fin r \<and> b64_atan2 (Fin 5) (Fin 4) = Fin r
      \<and> 3 / 4 \<le> r \<and> r \<le> 2"
proof -
  have ex: "b64_sub (Fin 4) (Fin 0) = Fin 4" by (simp add: b64_sub_def round_b64_4)
  have ey: "b64_sub (Fin 5) (Fin 0) = Fin 5" by (simp add: b64_sub_def round_b64_5)
  have "atan2 5 4 = arctan (5 / 4)" by (simp add: atan2_def)
  then have "\<exists>r. round_b64 (atan2 5 4) = Fin r \<and> 3 / 4 \<le> r \<and> r \<le> 2"
    using arctan_5_4_coarse
    by (intro round_b64_between round_b64_3_4 round_b64_2) simp_all
  then obtain r where r: "round_b64 (atan2 5 4) = Fin r" "3 / 4 \<le> r" "r \<le> 2" by blast
  from r(1) have "round_b64 r = Fin r" by (rule round_b64_idem)
  then have "b64_sub (Fin r) (Fin 0) = Fin r" by (simp add: b64_sub_def)
  then have "angle_error b64_arith (at_origin_b64 mem) = Fin r"
    unfolding angle_error_def b64_arith_simps at_origin_b64_fields ex ey
    by (simp add: r(1))
  with r show ?thesis by auto
qed

text \<open>
  The heading error of the scenario in binary64, and four times it: between the doubles
  \<open>3670 / 4096\<close> and \<open>3671 / 4096\<close>, that is \<open>0.89599\<dots>\<close> and \<open>0.89624\<dots>\<close>.
\<close>

lemma at_origin_b64_angle_value:
  "\<exists>r v. angle_error b64_arith (at_origin_b64 mem) = Fin r \<and> 0.8959 \<le> r \<and> r \<le> 0.8963
       \<and> d_mul b64_arith (d_lit b64_arith 4) (Fin r) = Fin v \<and> 3.583 \<le> v \<and> v \<le> 3.585"
proof -
  have ex: "b64_sub (Fin 4) (Fin 0) = Fin 4"
    by (simp add: b64_sub_def round_b64_4)
  have ey: "b64_sub (Fin 5) (Fin 0) = Fin 5"
    by (simp add: b64_sub_def round_b64_5)
  have "\<exists>r. round_b64 (atan2 5 4) = Fin r \<and> 3670 / 2 ^ 12 \<le> r \<and> r \<le> 3671 / 2 ^ 12"
    using atan2_5_4_bounds(1,2)
    by (intro round_b64_between round_b64_3670 round_b64_3671) simp_all
  then obtain r where r: "round_b64 (atan2 5 4) = Fin r" "3670 / 2 ^ 12 \<le> r" "r \<le> 3671 / 2 ^ 12"
    by blast
  from r(1) have "round_b64 r = Fin r"
    by (rule round_b64_idem)
  then have "b64_sub (Fin r) (Fin 0) = Fin r"
    by (simp add: b64_sub_def)
  then have a: "angle_error b64_arith (at_origin_b64 mem) = Fin r"
    unfolding angle_error_def b64_arith_simps at_origin_b64_fields ex ey
    by (simp add: r(1))
  have "\<exists>v. round_b64 (4 * r) = Fin v \<and> 3670 / 2 ^ 10 \<le> v \<and> v \<le> 3671 / 2 ^ 10"
    using r(2,3) by (intro round_b64_between round_b64_3670_4 round_b64_3671_4) simp_all
  then obtain v where v: "round_b64 (4 * r) = Fin v" "3670 / 2 ^ 10 \<le> v" "v \<le> 3671 / 2 ^ 10"
    by blast
  have m: "d_mul b64_arith (d_lit b64_arith 4) (Fin r) = Fin v"
    using r(2) by (simp add: b64_arith_simps round_b64_4 v(1))
  from r(2,3) v(2,3) have "0.8959 \<le> r" "r \<le> 0.8963" "3.583 \<le> v" "v \<le> 3.585"
    by simp_all
  with a m show ?thesis
    by blast
qed

text \<open>The first control cycle of the scenario in binary64.\<close>

lemma at_origin_b64_cycle:
  "control_loop b64_arith (at_origin_b64 mem) =
     Some ((at_origin_b64 mem) \<lparr> integral := Fin (28161238212607 / 2 ^ 42),
                                  prev_error := Fin (28161238212607 / 2 ^ 42) \<rparr>,
           \<lparr> linear_x = Fin 2, angular_z = Fin 2 \<rparr>)"
proof -
  let ?d = "28161238212607 / 2 ^ 42 :: real"
  obtain r where a: "angle_error b64_arith (at_origin_b64 mem) = Fin r"
    and r: "3 / 4 \<le> r" "r \<le> 2"
    using at_origin_b64_angle[of mem] by blast
  have n: "normalize_angle b64_arith (Fin r) = Some (Fin r)"
    using r by (intro normalize_b64_id) simp_all
  have "\<exists>v. round_b64 (4 * r) = Fin v \<and> 3 \<le> v \<and> v \<le> 8"
    using r by (intro round_b64_between round_b64_3 round_b64_8) simp_all
  then obtain v where v: "b64_mul (Fin 4) (Fin r) = Fin v" "3 \<le> v" using r by auto
  have ang: "clamp b64_arith (d_mul b64_arith (d_lit b64_arith 4) (Fin r))
      (d_neg b64_arith (d_lit b64_arith 2)) (d_lit b64_arith 2) = Fin 2"
    using v by (simp add: clamp_def b64_arith_simps round_b64_2 round_b64_4)
  have lin: "clamp b64_arith (Fin (3784870415774381 / 2 ^ 49))
      (d_neg b64_arith (d_lit b64_arith 2)) (d_lit b64_arith 2) = Fin 2"
    by (simp add: clamp_def b64_arith_simps round_b64_2)
  have "round_b64 ?d = Fin ?d"
    using round_b64_sqrt_41 by (rule round_b64_idem)
  then have i: "b64_add (Fin 0) (Fin ?d) = Fin ?d" by simp
  show ?thesis
    unfolding control_loop_eq a n option.case at_origin_b64_signal at_origin_b64_distance
      ang lin
    by (simp only: b64_arith_simps at_origin_b64_fields i)
qed

text \<open>
  The same cycle with any C library whose \<^verbatim>\<open>atan2(5, 4)\<close> is a double between \<open>3/4\<close> and
  \<open>2\<close>; the exact value is \<open>0.896\<dots>\<close>.
\<close>

lemma b64_libm_simps:
  "d_lit (b64_libm lib) x = round_b64 x" "M_PI (b64_libm lib) = Fin (884279719003555 / 2 ^ 48)"
  "d_neg (b64_libm lib) u = b64_neg u" "d_add (b64_libm lib) u v = b64_add u v"
  "d_sub (b64_libm lib) u v = b64_sub u v" "d_mul (b64_libm lib) u v = b64_mul u v"
  "d_less (b64_libm lib) u v = b64_less u v" "d_sqrt (b64_libm lib) u = b64_sqrt u"
  "d_atan2 (b64_libm lib) u v = lib u v"
  by (simp_all add: b64_libm_def b64_arith_def)

lemma b64_libm_errors:
  "distance_error (b64_libm lib) s = distance_error b64_arith s"
  "pid_signal (b64_libm lib) s = pid_signal b64_arith s"
  by (simp_all add: distance_error_def pid_signal_def b64_libm_simps b64_arith_simps)

lemma b64_libm_correctly_rounded: "b64_libm b64_atan2 = b64_arith"
  by (simp add: b64_libm_def b64_arith_def)

lemma normalize_b64_libm_id:
  assumes "- (884279719003555 / 2 ^ 48) \<le> r" and "r \<le> 884279719003555 / 2 ^ 48"
  shows "normalize_angle (b64_libm lib) (Fin r) = Some (Fin r)"
proof -
  have "wrap_down (b64_libm lib) (Fin r) = Some (Fin r)"
    using assms(2) by (subst wrap_down.simps) (simp add: b64_libm_simps)
  moreover have "wrap_up (b64_libm lib) (Fin r) = Some (Fin r)"
    using assms(1) by (subst wrap_up.simps) (simp add: b64_libm_simps)
  ultimately show ?thesis
    by (simp add: normalize_angle_def)
qed

lemma at_origin_b64_libm_cycle:
  assumes lib: "lib (Fin 5) (Fin 4) = Fin r" and fin: "is_finite (Fin r)"
    and r: "3 / 4 \<le> r" "r \<le> 2"
  shows "control_loop (b64_libm lib) (at_origin_b64 mem) =
     Some ((at_origin_b64 mem) \<lparr> integral := Fin (28161238212607 / 2 ^ 42),
                                  prev_error := Fin (28161238212607 / 2 ^ 42) \<rparr>,
           \<lparr> linear_x = Fin 2, angular_z = Fin 2 \<rparr>)"
proof -
  let ?d = "28161238212607 / 2 ^ 42 :: real"
  have ex: "b64_sub (Fin 4) (Fin 0) = Fin 4" by (simp add: b64_sub_def round_b64_4)
  have ey: "b64_sub (Fin 5) (Fin 0) = Fin 5" by (simp add: b64_sub_def round_b64_5)
  from fin have "round_b64 r = Fin r" by simp
  then have "b64_sub (Fin r) (Fin 0) = Fin r" by (simp add: b64_sub_def)
  then have a: "angle_error (b64_libm lib) (at_origin_b64 mem) = Fin r"
    unfolding angle_error_def b64_libm_simps at_origin_b64_fields ex ey
    by (simp add: lib)
  have n: "normalize_angle (b64_libm lib) (Fin r) = Some (Fin r)"
    using r by (intro normalize_b64_libm_id) simp_all
  have "\<exists>v. round_b64 (4 * r) = Fin v \<and> 3 \<le> v \<and> v \<le> 8"
    using r by (intro round_b64_between round_b64_3 round_b64_8) simp_all
  then obtain v where v: "b64_mul (Fin 4) (Fin r) = Fin v" "3 \<le> v" using r by auto
  have ang: "clamp (b64_libm lib) (d_mul (b64_libm lib) (d_lit (b64_libm lib) 4) (Fin r))
      (d_neg (b64_libm lib) (d_lit (b64_libm lib) 2)) (d_lit (b64_libm lib) 2) = Fin 2"
    using v by (simp add: clamp_def b64_libm_simps round_b64_2 round_b64_4)
  have lin: "clamp (b64_libm lib) (Fin (3784870415774381 / 2 ^ 49))
      (d_neg (b64_libm lib) (d_lit (b64_libm lib) 2)) (d_lit (b64_libm lib) 2) = Fin 2"
    by (simp add: clamp_def b64_libm_simps round_b64_2)
  have "round_b64 ?d = Fin ?d"
    using round_b64_sqrt_41 by (rule round_b64_idem)
  then have i: "b64_add (Fin 0) (Fin ?d) = Fin ?d" by simp
  show ?thesis
    unfolding control_loop_eq a n option.case b64_libm_errors at_origin_b64_signal
      at_origin_b64_distance ang lin
    by (simp only: b64_libm_simps at_origin_b64_fields i)
qed

lemma at_origin_b64_finite: "finite_state (at_origin_b64 mem)"
  unfolding finite_state_def at_origin_b64_fields is_finite.simps
  by (intro conjI round_b64_0 round_b64_1 round_b64_4 round_b64_5 round_b64_kd_double)

lemma at_origin_b64_gains: "constructed_gains b64_arith (at_origin_b64 mem)"
  by (simp add: constructed_gains_def at_origin_b64_fields b64_arith_simps
      round_b64_0 round_b64_1 round_b64_kd)

text \<open>Two control cycles of the scenario in binary64.\<close>

lemma round_b64_twice_sqrt_41:
  "b64_add (Fin (28161238212607 / 2 ^ 42)) (Fin (28161238212607 / 2 ^ 42))
     = Fin (28161238212607 / 2 ^ 41)"
  unfolding b64_add.simps
  by (rule round_b64_eval[where e = 3 and n = 7209276982427392])
     (simp_all add: round_even_def power_int_minus)

lemma at_origin_b64_observes:
  "observes b64_arith (Fin (28161238212607 / 2 ^ 42)) (at_origin_b64 mem) [TimerTick, TimerTick]"
proof -
  let ?d = "Fin (28161238212607 / 2 ^ 42)"
  let ?s1 = "(at_origin_b64 mem) \<lparr> integral := ?d, prev_error := ?d \<rparr>"
  obtain r where a: "angle_error b64_arith (at_origin_b64 mem) = Fin r"
    and r: "3 / 4 \<le> r" "r \<le> 2"
    using at_origin_b64_angle[of mem] by blast
  have n: "normalize_angle b64_arith (Fin r) = Some (Fin r)"
    using r by (intro normalize_b64_id) simp_all
  have "\<exists>x. control_loop b64_arith ?s1 = Some x"
    unfolding control_loop_eq errors_ignore_controller_state a n by simp
  then show ?thesis
    by (auto simp: at_origin_b64_cycle at_origin_b64_distance errors_ignore_controller_state)
qed

subsection \<open>A distance error that overflows\<close>

text \<open>
  The hypothesis on the node is needed. Once \<^verbatim>\<open>integral_\<close> is infinite, \<^verbatim>\<open>ki_ * integral_\<close>
  is \<open>0.0 * \<infinity>\<close>, a NaN; no comparison of \<^verbatim>\<open>std::clamp\<close> holds of a NaN, and it is
  published as it is.
\<close>

lemma b64_add_NaN_right: "b64_add u NaN = NaN"
  by (cases u) simp_all

lemma clamp_b64_NaN: "clamp b64_arith NaN lo hi = NaN"
  by (cases hi) (simp_all add: clamp_def b64_arith_simps)

lemma infinite_integral_NaN:
  assumes "ki s = Fin 0" and "integral s = PInf"
    and "control_loop b64_arith s = Some (s', m)"
  shows "linear_x m = NaN"
proof -
  have "pid_signal b64_arith s = NaN"
    by (simp add: pid_signal_def b64_arith_simps assms(1,2) b64_add_NaN_right)
  with assms(3) show ?thesis
    by (auto simp: control_loop_eq clamp_b64_NaN split: option.splits)
qed

text \<open>
  Finite messages lead there: the square of \<open>2\<^sup>6\<^sup>0\<^sup>0\<close> overflows, and the distance error of
  \<open>far_goal\<close> is infinite.
\<close>

lemma round_b64_two600: "round_b64 (2 ^ 600) = Fin (2 ^ 600)"
  by (rule round_b64_eval[where e = 600 and n = "2 ^ 52"])
     (simp_all add: round_even_def power_int_minus)

lemma far_goal_fields:
  "x_goal far_goal = Fin (2 ^ 600)" "y_goal far_goal = Fin 0"
  "x_current far_goal = Fin 0" "y_current far_goal = Fin 0"
  "theta_current far_goal = Fin 0"
  "kp far_goal = Fin 1" "ki far_goal = Fin 0"
  "kd far_goal = Fin (3602879701896397 / 2 ^ 56)"
  "prev_error far_goal = Fin 0" "integral far_goal = Fin 0"
  by (simp_all add: far_goal_def pose_callback_def goal_callback_def TurtleNavigator_def
      b64_arith_def round_b64_0 round_b64_1 round_b64_kd)

lemma far_goal_finite: "finite_state far_goal"
  unfolding finite_state_def far_goal_fields is_finite.simps
  by (intro conjI round_b64_0 round_b64_1 round_b64_kd_double round_b64_two600)

lemma far_goal_gains: "constructed_gains b64_arith far_goal"
  by (simp add: constructed_gains_def far_goal_fields b64_arith_simps
      round_b64_0 round_b64_1 round_b64_kd)

lemma b64_sub_two600: "b64_sub (Fin (2 ^ 600)) (Fin 0) = Fin (2 ^ 600)"
  unfolding b64_sub_Fin
  by (rule round_b64_eval[where e = 600 and n = "2 ^ 52"])
     (simp_all add: round_even_def power_int_minus)

lemma b64_mul_two600: "b64_mul (Fin (2 ^ 600)) (Fin (2 ^ 600)) = PInf"
proof -
  have "\<lfloor>log 2 \<bar>2 ^ 600 * 2 ^ 600 :: real\<bar>\<rfloor> = 1200"
    by (rule floor_log2_eq) simp_all
  then have "round_b64 (2 ^ 600 * 2 ^ 600) = PInf"
    by (simp add: round_b64_def b64_quantum_def b64_exponent_def Let_def round_even_def
        power_int_minus)
  moreover have "(2::real) ^ 600 * 2 ^ 600 \<noteq> 0" by simp
  ultimately show ?thesis
    by (simp only: b64_mul.simps if_False)
qed

lemma far_goal_distance:
  "distance_error b64_arith (far_goal \<lparr> integral := i, prev_error := p \<rparr>) = PInf"
proof -
  have z: "b64_sub (Fin 0) (Fin 0) = Fin 0" "b64_mul (Fin 0) (Fin 0) = Fin 0"
    by (simp_all add: b64_sub_def round_b64_0)
  have "distance_error b64_arith far_goal = PInf"
    unfolding distance_error_def
    unfolding far_goal_fields
    unfolding b64_arith_simps
    unfolding b64_sub_two600 z
    by (simp only: b64_mul_two600 b64_add.simps b64_sqrt.simps)
  then show ?thesis
    by (simp only: errors_ignore_controller_state)
qed

lemma far_goal_angle:
  "angle_error b64_arith (far_goal \<lparr> integral := i, prev_error := p \<rparr>) = Fin 0"
proof -
  have z: "b64_sub (Fin 0) (Fin 0) = Fin 0"
    by (simp add: b64_sub_def round_b64_0)
  have a: "b64_atan2 (Fin 0) (Fin (2 ^ 600)) = Fin 0"
    by (simp add: atan2_def round_b64_0)
  have "angle_error b64_arith far_goal = Fin 0"
    unfolding angle_error_def
    unfolding far_goal_fields
    unfolding b64_arith_simps
    unfolding b64_sub_two600 z
    by (simp only: a z)
  then show ?thesis
    by (simp only: errors_ignore_controller_state)
qed

text \<open>
  The first control cycle of \<open>far_goal\<close> publishes the limit and stores \<open>+\<infinity>\<close> in
  \<^verbatim>\<open>integral_\<close> and \<^verbatim>\<open>prev_error_\<close>; the second publishes a NaN.
\<close>

lemma far_goal_cycles:
  "control_loop b64_arith far_goal =
     Some (far_goal \<lparr> integral := PInf, prev_error := PInf \<rparr>,
           \<lparr> linear_x = Fin 2, angular_z = Fin 0 \<rparr>)"
  "control_loop b64_arith (far_goal \<lparr> integral := PInf, prev_error := PInf \<rparr>) =
     Some (far_goal \<lparr> integral := PInf, prev_error := PInf \<rparr>,
           \<lparr> linear_x = NaN, angular_z = Fin 0 \<rparr>)"
proof -
  have n: "normalize_angle b64_arith (Fin 0) = Some (Fin 0)"
    by (rule normalize_b64_id) simp_all
  have d: "distance_error b64_arith far_goal = PInf"
    using far_goal_distance[where i = "integral far_goal" and p = "prev_error far_goal"] by simp
  have a: "angle_error b64_arith far_goal = Fin 0"
    using far_goal_angle[where i = "integral far_goal" and p = "prev_error far_goal"] by simp
  have p: "pid_signal b64_arith far_goal = PInf"
    by (simp add: pid_signal_def d far_goal_fields b64_arith_simps b64_sub_def b64_inf_def
        round_b64_0)
  show "control_loop b64_arith far_goal =
     Some (far_goal \<lparr> integral := PInf, prev_error := PInf \<rparr>,
           \<lparr> linear_x = Fin 2, angular_z = Fin 0 \<rparr>)"
    by (simp add: control_loop_eq a n d p far_goal_fields clamp_def b64_arith_simps
        round_b64_0 round_b64_2 round_b64_4)
  have p': "pid_signal b64_arith (far_goal \<lparr> integral := PInf, prev_error := PInf \<rparr>) = NaN"
    by (simp add: pid_signal_def far_goal_fields b64_arith_simps b64_add_NaN_right)
  show "control_loop b64_arith (far_goal \<lparr> integral := PInf, prev_error := PInf \<rparr>) =
     Some (far_goal \<lparr> integral := PInf, prev_error := PInf \<rparr>,
           \<lparr> linear_x = NaN, angular_z = Fin 0 \<rparr>)"
    by (simp add: control_loop_eq far_goal_angle far_goal_distance n p' clamp_def b64_arith_simps
        round_b64_0 round_b64_2 round_b64_4)
qed

subsection \<open>Accumulation\<close>

text \<open>
  Adding a normal double \<open>d\<close> to zero \<open>n\<close> times, \<open>n \<le> 2\<^sup>5\<^sup>3\<close>, without overflow: each addition
  rounds with a relative error of at most \<open>2\<^sup>-\<^sup>5\<^sup>3\<close>, and the sum differs from \<open>n * d\<close> by at most
  \<open>n\<^sup>2 * d * 2\<^sup>-\<^sup>5\<^sup>3\<close>.
\<close>

lemma accumulate_bound:
  assumes d: "round_b64 d = Fin d" and lo: "2 powi (- 1022) \<le> d"
  shows "real (Suc n) * d \<le> 2 ^ 1022 \<Longrightarrow> Suc n \<le> 2 ^ 53 \<Longrightarrow>
    \<exists>i. ((\<lambda>x. b64_add x (Fin d)) ^^ Suc n) (Fin 0) = Fin i \<and> 0 \<le> i
       \<and> \<bar>i - real (Suc n) * d\<bar> \<le> (real (Suc n))\<^sup>2 * d / 2 ^ 53"
proof (induction n)
  case 0
  have "((\<lambda>x. b64_add x (Fin d)) ^^ Suc 0) (Fin 0) = Fin d"
    using d by simp
  moreover have "0 \<le> d" using lo by (smt (verit) zero_less_power_int)
  ultimately show ?case by simp
next
  case (Suc n)
  let ?m = "real (Suc n)"
  have dpos: "0 < d" using lo by (smt (verit) zero_less_power_int)
  have m1: "1 \<le> ?m" by simp
  have m53: "?m \<le> 2 ^ 53"
  proof -
    have "Suc n \<le> 2 ^ 53" using Suc.prems(2) by simp
    then show ?thesis by (metis of_nat_le_iff of_nat_numeral of_nat_power)
  qed
  have ss: "real (Suc (Suc n)) = ?m + 1" by simp
  have top: "(?m + 1) * d \<le> 2 ^ 1022"
    using Suc.prems(1) unfolding ss .
  have "?m * d \<le> (?m + 1) * d" using dpos by (simp add: algebra_simps)
  with top have "?m * d \<le> 2 ^ 1022" by linarith
  moreover have "Suc n \<le> 2 ^ 53" using Suc.prems(2) by simp
  ultimately obtain i where i: "((\<lambda>x. b64_add x (Fin d)) ^^ Suc n) (Fin 0) = Fin i"
    and i0: "0 \<le> i" and ie: "\<bar>i - ?m * d\<bar> \<le> ?m\<^sup>2 * d / 2 ^ 53"
    using Suc.IH by blast
  have "?m * ?m \<le> ?m * 2 ^ 53"
    using m53 m1 by (intro mult_left_mono) simp_all
  then have "?m\<^sup>2 * d \<le> ?m * 2 ^ 53 * d"
    using dpos by (simp add: power2_eq_square mult_right_mono)
  then have sq: "?m\<^sup>2 * d / 2 ^ 53 \<le> ?m * d"
    by (simp add: field_simps)
  let ?x = "i + d"
  have xlo: "2 powi (- 1022) \<le> \<bar>?x\<bar>" using lo i0 by simp
  have "i - ?m * d \<le> ?m\<^sup>2 * d / 2 ^ 53"
    using ie by (simp only: abs_le_iff)
  with sq have "i \<le> 2 * (?m * d)" by linarith
  then have xup: "?x \<le> (2 * ?m + 1) * d"
    by (simp add: algebra_simps)
  also have "\<dots> \<le> 2 * ((?m + 1) * d)" using dpos by (simp add: algebra_simps)
  also have "\<dots> \<le> 2 * 2 ^ 1022" by (intro mult_left_mono top) simp
  finally have xhi: "\<bar>?x\<bar> \<le> 2 ^ 1023" using i0 dpos by simp
  from round_b64_rel_error[OF xlo xhi] obtain r where r: "round_b64 ?x = Fin r"
    and re: "\<bar>r - ?x\<bar> \<le> \<bar>?x\<bar> / 2 ^ 53" by blast
  have xabs: "\<bar>?x\<bar> = ?x" using i0 dpos by simp
  have r0: "0 \<le> r"
    using round_b64_nonneg[of ?x] r i0 dpos by auto
  have "\<bar>r - (?m + 1) * d\<bar> \<le> \<bar>r - ?x\<bar> + \<bar>i - ?m * d\<bar>"
    by (simp add: algebra_simps)
  also have "\<dots> \<le> ?x / 2 ^ 53 + ?m\<^sup>2 * d / 2 ^ 53"
    using re[unfolded xabs] ie by (rule add_mono)
  also have "\<dots> \<le> (2 * ?m + 1) * d / 2 ^ 53 + ?m\<^sup>2 * d / 2 ^ 53"
    using xup by (simp add: divide_right_mono)
  also have "\<dots> = (?m + 1)\<^sup>2 * d / 2 ^ 53"
    by (simp add: power2_eq_square algebra_simps add_divide_distrib)
  finally have "\<bar>r - (?m + 1) * d\<bar> \<le> (?m + 1)\<^sup>2 * d / 2 ^ 53" .
  moreover have "((\<lambda>x. b64_add x (Fin d)) ^^ Suc (Suc n)) (Fin 0) = Fin r"
    using i r by simp
  moreover have "real (Suc (Suc n)) = ?m + 1" by simp
  ultimately show ?case using r0 by (simp only:) blast
qed

text \<open>
  One unit short of the goal every control cycle returns and finds the distance error \<open>1\<close>,
  whatever \<^verbatim>\<open>integral_\<close> and \<^verbatim>\<open>prev_error_\<close> hold.
\<close>

lemma ticks_replicate: "ticks (replicate n TimerTick) = n"
  by (induction n) simp_all

lemma near_goal_b64_fields:
  "x_goal near_goal_b64 = Fin 4" "y_goal near_goal_b64 = Fin 5"
  "x_current near_goal_b64 = Fin 3" "y_current near_goal_b64 = Fin 5"
  "theta_current near_goal_b64 = Fin 0"
  "kp near_goal_b64 = Fin 1" "ki near_goal_b64 = Fin 0"
  "kd near_goal_b64 = Fin (3602879701896397 / 2 ^ 56)"
  "prev_error near_goal_b64 = Fin 0" "integral near_goal_b64 = Fin 0"
  by (simp_all add: near_goal_b64_def pose_callback_def TurtleNavigator_def
      b64_arith_def round_b64_0 round_b64_1 round_b64_4 round_b64_5 round_b64_kd)

lemma near_goal_b64_errors:
  "distance_error b64_arith (near_goal_b64 \<lparr> integral := i, prev_error := p \<rparr>) = Fin 1"
  "angle_error b64_arith (near_goal_b64 \<lparr> integral := i, prev_error := p \<rparr>) = Fin 0"
proof -
  have d: "distance_error b64_arith near_goal_b64 = Fin 1"
    by (simp add: distance_error_def near_goal_b64_fields b64_arith_simps b64_sub_def
        round_b64_0 round_b64_1)
  have a: "angle_error b64_arith near_goal_b64 = Fin 0"
    by (simp add: angle_error_def near_goal_b64_fields b64_arith_simps b64_sub_def
        round_b64_0 round_b64_1 atan2_def)
  show "distance_error b64_arith (near_goal_b64 \<lparr> integral := i, prev_error := p \<rparr>) = Fin 1"
    by (simp only: errors_ignore_controller_state d)
  show "angle_error b64_arith (near_goal_b64 \<lparr> integral := i, prev_error := p \<rparr>) = Fin 0"
    by (simp only: errors_ignore_controller_state a)
qed

lemma near_goal_b64_cycle:
  "\<exists>m. control_loop b64_arith (near_goal_b64 \<lparr> integral := i, prev_error := p \<rparr>) =
     Some (near_goal_b64 \<lparr> integral := b64_add i (Fin 1), prev_error := Fin 1 \<rparr>, m)"
proof -
  have n: "normalize_angle b64_arith (Fin 0) = Some (Fin 0)"
    by (rule normalize_b64_id) simp_all
  show ?thesis
    by (simp add: control_loop_eq near_goal_b64_errors n b64_arith_simps)
qed

lemma near_goal_b64_observes:
  "observes b64_arith (Fin 1) (near_goal_b64 \<lparr> integral := i, prev_error := p \<rparr>)
     (replicate n TimerTick)"
proof (induction n arbitrary: i p)
  case 0
  then show ?case by simp
next
  case (Suc n)
  obtain m where "control_loop b64_arith (near_goal_b64 \<lparr> integral := i, prev_error := p \<rparr>) =
     Some (near_goal_b64 \<lparr> integral := b64_add i (Fin 1), prev_error := Fin 1 \<rparr>, m)"
    using near_goal_b64_cycle by blast
  then show ?case
    using Suc.IH[where i = "b64_add i (Fin 1)" and p = "Fin 1"]
    by (simp add: near_goal_b64_errors)
qed

lemma near_goal_b64_self:
  "near_goal_b64 \<lparr> integral := Fin 0, prev_error := Fin 0 \<rparr> = near_goal_b64"
  by (simp add: near_goal_b64_def pose_callback_def TurtleNavigator_def b64_arith_def
      round_b64_0)

text \<open>Counting in binary64 stops at \<open>2\<^sup>5\<^sup>3\<close>.\<close>

lemma count_b64:
  "n \<le> 2 ^ 53 \<Longrightarrow> ((\<lambda>x. b64_add x (Fin 1)) ^^ n) (Fin 0) = Fin (real n)"
proof (induction n)
  case 0
  then show ?case by simp
next
  case (Suc n)
  then have "((\<lambda>x. b64_add x (Fin 1)) ^^ n) (Fin 0) = Fin (real n)" by simp
  moreover have "round_b64 (real (Suc n)) = Fin (real (Suc n))"
    using Suc.prems by (rule round_b64_of_nat)
  ultimately show ?case by (simp add: add.commute)
qed

lemma b64_add_two53: "b64_add (Fin (2 ^ 53)) (Fin 1) = Fin (2 ^ 53)"
  unfolding b64_add.simps
  by (rule round_b64_eval[where e = 53 and n = "2 ^ 52"])
     (simp_all add: round_even_def power_int_minus)

lemma count_b64_stuck: "((\<lambda>x. b64_add x (Fin 1)) ^^ n) (Fin (2 ^ 53)) = Fin (2 ^ 53)"
  by (induction n) (simp_all only: funpow.simps comp_apply id_apply b64_add_two53)

lemma count_b64_beyond:
  assumes "2 ^ 53 \<le> n"
  shows "((\<lambda>x. b64_add x (Fin 1)) ^^ n) (Fin 0) = Fin (2 ^ 53)"
proof -
  obtain m where n: "n = m + 2 ^ 53"
    using assms by (metis add.commute le_Suc_ex)
  have "((\<lambda>x. b64_add x (Fin 1)) ^^ (2 ^ 53)) (Fin 0) = Fin (real ((2::nat) ^ 53))"
    by (rule count_b64) simp
  also have "real ((2::nat) ^ 53) = 2 ^ 53" by simp
  finally have "((\<lambda>x. b64_add x (Fin 1)) ^^ (2 ^ 53)) (Fin 0) = Fin (2 ^ 53)" .
  then show ?thesis
    unfolding n funpow_add comp_apply by (simp only: count_b64_stuck)
qed

lemma near_goal_b64_stagnates:
  assumes "2 ^ 53 \<le> n"
  shows "map_option integral (run b64_arith near_goal_b64 (replicate n TimerTick))
    = Some (Fin (2 ^ 53))"
proof -
  have "observes b64_arith (Fin 1) near_goal_b64 (replicate n TimerTick)"
    using near_goal_b64_observes[where i = "Fin 0" and p = "Fin 0" and n = n]
    by (simp only: near_goal_b64_self)
  from run_integral[OF this] show ?thesis
    using count_b64_beyond[OF assms]
    by (auto simp: ticks_replicate near_goal_b64_fields b64_arith_simps)
qed

subsection \<open>On the goal in binary64\<close>

text \<open>Zeros: differences of a finite double and itself, products and sums of zeros.\<close>

lemma b64_sub_self: "is_finite u \<Longrightarrow> b64_sub u u = Fin 0"
  by (cases u) (simp_all add: b64_sub_def round_b64_0)

lemma b64_mul_zero:
  assumes "is_finite k" and "z = Fin 0 \<or> z = NZero"
  shows "b64_mul k z = Fin 0 \<or> b64_mul k z = NZero"
proof (cases k)
  case (Fin x)
  then show ?thesis
    using assms(2) b64_zero_cases[of "x < 0"] b64_zero_cases[of "\<not> x < 0"] by auto
qed (use assms in auto)

lemma b64_add_zeros:
  assumes "a = Fin 0 \<or> a = NZero" and "b = Fin 0 \<or> b = NZero"
  shows "b64_add a b = Fin 0 \<or> b64_add a b = NZero"
  using assms by (auto simp: round_b64_0)

lemma clamp_b64_zero:
  assumes "z = Fin 0 \<or> z = NZero"
  shows "clamp b64_arith z (d_neg b64_arith (d_lit b64_arith 2)) (d_lit b64_arith 2) = z"
  using assms by (auto simp: clamp_def b64_arith_simps round_b64_2)

text \<open>
  A node of finite doubles whose position is its goal, the same doubles, and whose
  \<^verbatim>\<open>prev_error_\<close> and \<^verbatim>\<open>integral_\<close> are zeros: the signal is a zero, and the control cycle
  returns when the normalisation of \<open>0 - theta_current\<close> does.
\<close>

lemma cycle_on_goal_b64:
  assumes fin: "finite_state s"
    and pos: "x_current s = x_goal s" "y_current s = y_goal s"
    and zero: "b64_eq (prev_error s) (Fin 0)" "b64_eq (integral s) (Fin 0)"
  shows "b64_eq (pid_signal b64_arith s) (Fin 0)"
    and "control_loop b64_arith s =
           (case normalize_angle b64_arith (b64_sub (Fin 0) (theta_current s)) of
              None \<Rightarrow> None
            | Some a \<Rightarrow>
                Some (s \<lparr> integral := Fin 0, prev_error := Fin 0 \<rparr>,
                      \<lparr> linear_x = pid_signal b64_arith s,
                        angular_z = clamp b64_arith (b64_mul (Fin 4) a) (Fin (- 2)) (Fin 2) \<rparr>))"
proof -
  from fin have f: "is_finite (x_goal s)" "is_finite (y_goal s)"
      "is_finite (kp s)" "is_finite (ki s)" "is_finite (kd s)"
    by (simp_all add: finite_state_def)
  from zero have zp: "prev_error s = Fin 0 \<or> prev_error s = NZero"
    and zi: "integral s = Fin 0 \<or> integral s = NZero"
    by (simp_all add: b64_eq_zero)
  have d: "distance_error b64_arith s = Fin 0"
    unfolding distance_error_def b64_arith_simps pos b64_sub_self[OF f(1)] b64_sub_self[OF f(2)]
    by (simp add: round_b64_0)
  have an: "angle_error b64_arith s = b64_sub (Fin 0) (theta_current s)"
    unfolding angle_error_def b64_arith_simps pos b64_sub_self[OF f(1)] b64_sub_self[OF f(2)]
    by (simp add: atan2_def round_b64_0)
  have dp: "b64_sub (Fin 0) (prev_error s) = Fin 0"
    using zp by (auto simp: b64_sub_def round_b64_0)
  have p: "pid_signal b64_arith s = Fin 0 \<or> pid_signal b64_arith s = NZero"
    unfolding pid_signal_def d b64_arith_simps dp
    by (intro b64_add_zeros b64_mul_zero f zi) simp_all
  then show "b64_eq (pid_signal b64_arith s) (Fin 0)"
    by (simp add: b64_eq_zero)
  have i: "d_add b64_arith (integral s) (Fin 0) = Fin 0"
    using zi by (auto simp: b64_arith_simps round_b64_0)
  show "control_loop b64_arith s =
           (case normalize_angle b64_arith (b64_sub (Fin 0) (theta_current s)) of
              None \<Rightarrow> None
            | Some a \<Rightarrow>
                Some (s \<lparr> integral := Fin 0, prev_error := Fin 0 \<rparr>,
                      \<lparr> linear_x = pid_signal b64_arith s,
                        angular_z = clamp b64_arith (b64_mul (Fin 4) a) (Fin (- 2)) (Fin 2) \<rparr>))"
    unfolding control_loop_eq an d i clamp_b64_zero[OF p]
    by (simp add: b64_arith_simps round_b64_2 round_b64_4 split: option.splits)
qed

text \<open>With the gains that the constructor sets the signal is the positive zero.\<close>

lemma pid_signal_on_goal_b64:
  assumes "distance_error b64_arith s = Fin 0" and "constructed_gains b64_arith s"
    and "prev_error s = Fin 0" and "integral s = Fin 0"
  shows "pid_signal b64_arith s = Fin 0"
  unfolding pid_signal_def assms(1,3,4) constructed_gains_b64[OF assms(2)] b64_arith_simps
  by (simp add: b64_sub_def round_b64_0)

lemma on_goal_b64_fields:
  "x_goal on_goal_b64 = Fin 4" "y_goal on_goal_b64 = Fin 5"
  "x_current on_goal_b64 = Fin 4" "y_current on_goal_b64 = Fin 5"
  "theta_current on_goal_b64 = Fin (1 / 4)"
  "kp on_goal_b64 = Fin 1" "ki on_goal_b64 = Fin 0"
  "kd on_goal_b64 = Fin (3602879701896397 / 2 ^ 56)"
  "prev_error on_goal_b64 = Fin 0" "integral on_goal_b64 = Fin 0"
  by (simp_all add: on_goal_b64_def pose_callback_def TurtleNavigator_def b64_arith_simps
      round_b64_0 round_b64_1 round_b64_4 round_b64_5 round_b64_kd)

lemma on_goal_b64_finite: "finite_state on_goal_b64"
  unfolding finite_state_def on_goal_b64_fields is_finite.simps
  by (intro conjI round_b64_0 round_b64_1 round_b64_4 round_b64_5 round_b64_kd_double
      round_b64_1_4)

lemma on_goal_b64_gains: "constructed_gains b64_arith on_goal_b64"
  by (simp add: constructed_gains_def on_goal_b64_fields b64_arith_simps
      round_b64_0 round_b64_1 round_b64_kd)

lemma on_goal_b64_self:
  "on_goal_b64 \<lparr> integral := Fin 0, prev_error := Fin 0 \<rparr> = on_goal_b64"
  by (simp add: on_goal_b64_def pose_callback_def TurtleNavigator_def b64_arith_def
      round_b64_0)

lemma on_goal_b64_cycle:
  "control_loop b64_arith on_goal_b64 =
     Some (on_goal_b64, \<lparr> linear_x = Fin 0, angular_z = Fin (- 1) \<rparr>)"
proof -
  have s: "b64_sub (Fin 0) (Fin (1 / 4)) = Fin (- (1 / 4))"
    unfolding b64_sub_Fin
    by (rule round_b64_eval[where e = "- 2" and n = "- (2 ^ 52)"])
       (simp_all add: round_even_def power_int_minus)
  have n: "normalize_angle b64_arith (Fin (- (1 / 4))) = Some (Fin (- (1 / 4)))"
    by (rule normalize_b64_id) simp_all
  have m: "b64_mul (Fin 4) (Fin (- (1 / 4))) = Fin (- 1)"
    by (simp add: round_b64_minus_1)
  have c: "clamp b64_arith (Fin (- 1)) (Fin (- 2)) (Fin 2) = Fin (- 1)"
    by (simp add: clamp_def b64_arith_simps)
  have e: "b64_sub (Fin 4) (Fin 4) = Fin 0" "b64_sub (Fin 5) (Fin 5) = Fin 0"
    by (simp_all add: b64_sub_Fin round_b64_0)
  have d: "distance_error b64_arith on_goal_b64 = Fin 0"
    unfolding distance_error_def b64_arith_simps on_goal_b64_fields e
    by (simp add: round_b64_0)
  have p: "pid_signal b64_arith on_goal_b64 = Fin 0"
    using d on_goal_b64_gains by (rule pid_signal_on_goal_b64) (simp_all add: on_goal_b64_fields)
  have "control_loop b64_arith on_goal_b64 =
      (case normalize_angle b64_arith (b64_sub (Fin 0) (theta_current on_goal_b64)) of
         None \<Rightarrow> None
       | Some a \<Rightarrow>
           Some (on_goal_b64 \<lparr> integral := Fin 0, prev_error := Fin 0 \<rparr>,
                 \<lparr> linear_x = pid_signal b64_arith on_goal_b64,
                   angular_z = clamp b64_arith (b64_mul (Fin 4) a) (Fin (- 2)) (Fin 2) \<rparr>))"
    by (rule cycle_on_goal_b64(2)) (simp_all add: on_goal_b64_finite on_goal_b64_fields)
  then show ?thesis
    unfolding on_goal_b64_fields s n option.case m c p on_goal_b64_self .
qed

text \<open>
  On the goal with a heading of \<open>-2\<^sup>6\<^sup>0\<close> the heading error is \<open>2\<^sup>6\<^sup>0\<close>, on which the first
  normalisation loop does not return.
\<close>

lemma on_goal_far_heading_fields:
  "x_goal on_goal_far_heading = Fin 4" "y_goal on_goal_far_heading = Fin 5"
  "x_current on_goal_far_heading = Fin 4" "y_current on_goal_far_heading = Fin 5"
  "theta_current on_goal_far_heading = Fin (- (2 ^ 60))"
  "kp on_goal_far_heading = Fin 1" "ki on_goal_far_heading = Fin 0"
  "kd on_goal_far_heading = Fin (3602879701896397 / 2 ^ 56)"
  "prev_error on_goal_far_heading = Fin 0" "integral on_goal_far_heading = Fin 0"
  by (simp_all add: on_goal_far_heading_def pose_callback_def TurtleNavigator_def b64_arith_def
      round_b64_0 round_b64_1 round_b64_4 round_b64_5 round_b64_kd)

lemma on_goal_far_heading_hangs:
  "finite_state on_goal_far_heading" "control_loop b64_arith on_goal_far_heading = None"
proof -
  show f: "finite_state on_goal_far_heading"
    unfolding finite_state_def on_goal_far_heading_fields is_finite.simps
    by (intro conjI round_b64_0 round_b64_1 round_b64_4 round_b64_5
        round_b64_kd_double round_b64_minus_two60)
  have "control_loop b64_arith on_goal_far_heading =
      (case normalize_angle b64_arith (b64_sub (Fin 0) (theta_current on_goal_far_heading)) of
         None \<Rightarrow> None
       | Some a \<Rightarrow>
           Some (on_goal_far_heading \<lparr> integral := Fin 0, prev_error := Fin 0 \<rparr>,
                 \<lparr> linear_x = pid_signal b64_arith on_goal_far_heading,
                   angular_z = clamp b64_arith (b64_mul (Fin 4) a) (Fin (- 2)) (Fin 2) \<rparr>))"
    using f by (rule cycle_on_goal_b64(2)) (simp_all add: on_goal_far_heading_fields)
  moreover have "normalize_angle b64_arith (Fin (2 ^ 60)) = None"
    by (simp only: normalize_angle_def wrap_down_b64_two60 option.case)
  ultimately show "control_loop b64_arith on_goal_far_heading = None"
    by (simp only: on_goal_far_heading_fields b64_sub_from_zero option.case)
qed

text \<open>
  A goal coordinate \<^verbatim>\<open>-0.0\<close> over a pose coordinate \<^verbatim>\<open>0.0\<close>: the two compare equal, the error
  \<^verbatim>\<open>error_x\<close> is \<^verbatim>\<open>-0.0\<close>, and \<open>atan2(+0, -0)\<close> is \<open>\<pi>\<close>, where \<open>atan2(+0, +0)\<close> is \<open>0\<close>.
\<close>

lemma on_zero_goal_fields:
  "x_goal (on_zero_goal gx) = gx" "y_goal (on_zero_goal gx) = Fin 0"
  "x_current (on_zero_goal gx) = Fin 0" "y_current (on_zero_goal gx) = Fin 0"
  "theta_current (on_zero_goal gx) = Fin 1"
  "kp (on_zero_goal gx) = Fin 1" "ki (on_zero_goal gx) = Fin 0"
  "kd (on_zero_goal gx) = Fin (3602879701896397 / 2 ^ 56)"
  "prev_error (on_zero_goal gx) = Fin 0" "integral (on_zero_goal gx) = Fin 0"
  by (simp_all add: on_zero_goal_def pose_callback_def goal_callback_def TurtleNavigator_def
      b64_arith_def round_b64_0 round_b64_1 round_b64_kd)

lemma on_zero_goal_linear:
  assumes "gx = Fin 0 \<or> gx = NZero"
  shows "distance_error b64_arith (on_zero_goal gx) = Fin 0"
    and "pid_signal b64_arith (on_zero_goal gx) = Fin 0"
proof -
  show d: "distance_error b64_arith (on_zero_goal gx) = Fin 0"
    unfolding distance_error_def b64_arith_simps on_zero_goal_fields
    using assms by (auto simp: b64_sub_def round_b64_0)
  have g: "constructed_gains b64_arith (on_zero_goal gx)"
    by (simp add: constructed_gains_def on_zero_goal_fields b64_arith_simps
        round_b64_0 round_b64_1 round_b64_kd)
  show "pid_signal b64_arith (on_zero_goal gx) = Fin 0"
    using d g by (rule pid_signal_on_goal_b64) (simp_all add: on_zero_goal_fields)
qed

lemma on_zero_goal_cycles:
  "map_option snd (control_loop b64_arith (on_zero_goal (Fin 0)))
     = Some \<lparr> linear_x = Fin 0, angular_z = Fin (- 2) \<rparr>"
  "map_option snd (control_loop b64_arith (on_zero_goal NZero))
     = Some \<lparr> linear_x = Fin 0, angular_z = Fin 2 \<rparr>"
proof -
  have r4: "round_b64 (- 4) = Fin (- 4)"
    by (rule round_b64_eval[where e = 2 and n = "- (2 ^ 52)"])
       (simp_all add: round_even_def power_int_minus)
  have a0: "angle_error b64_arith (on_zero_goal (Fin 0)) = Fin (- 1)"
    unfolding angle_error_def b64_arith_simps on_zero_goal_fields
    by (simp add: b64_sub_def round_b64_0 atan2_def round_b64_minus_1)
  have n0: "normalize_angle b64_arith (Fin (- 1)) = Some (Fin (- 1))"
    by (rule normalize_b64_id) simp_all
  show "map_option snd (control_loop b64_arith (on_zero_goal (Fin 0)))
     = Some \<lparr> linear_x = Fin 0, angular_z = Fin (- 2) \<rparr>"
    unfolding control_loop_eq a0 n0 option.case on_zero_goal_linear(2)[of "Fin 0", simplified]
    by (simp add: b64_arith_simps round_b64_2 round_b64_4 r4 clamp_def)
  have "pi \<le> 4" using pi_less_4 by simp
  then have "\<exists>a. round_b64 pi = Fin a \<and> 3 \<le> a \<and> a \<le> 4"
    using pi_ge_3 by (intro round_b64_between round_b64_3 round_b64_4) simp_all
  then obtain a where a: "round_b64 pi = Fin a" "3 \<le> a" "a \<le> 4" by blast
  have "\<exists>b. round_b64 (a - 1) = Fin b \<and> 2 \<le> b \<and> b \<le> 3"
    using a by (intro round_b64_between round_b64_2 round_b64_3) simp_all
  then obtain b where b: "round_b64 (a - 1) = Fin b" "2 \<le> b" "b \<le> 3" by blast
  have "\<exists>c. round_b64 (4 * b) = Fin c \<and> 8 \<le> c \<and> c \<le> 16"
    using b by (intro round_b64_between round_b64_8 round_b64_16) simp_all
  then obtain c where c: "round_b64 (4 * b) = Fin c" "8 \<le> c" by blast
  have a1: "angle_error b64_arith (on_zero_goal NZero) = Fin b"
    unfolding angle_error_def b64_arith_simps on_zero_goal_fields
    by (simp add: b64_sub_def round_b64_0 b64_atan2_def a b)
  have n1: "normalize_angle b64_arith (Fin b) = Some (Fin b)"
    using b by (intro normalize_b64_id) simp_all
  show "map_option snd (control_loop b64_arith (on_zero_goal NZero))
     = Some \<lparr> linear_x = Fin 0, angular_z = Fin 2 \<rparr>"
    unfolding control_loop_eq a1 n1 option.case on_zero_goal_linear(2)[of NZero, simplified]
    using b c by (simp add: b64_arith_simps round_b64_2 round_b64_4 clamp_def)
qed

section \<open>The claims\<close>

subsection \<open>Normalisation of the heading error\<close>




subsection \<open>The end-to-end scenario\<close>

text \<open>
  C2. The node as constructed (goal \<open>(4, 5)\<close>, gains \<open>1\<close>, \<open>0\<close>, \<open>0.05\<close>, zero \<^verbatim>\<open>prev_error_\<close>
  and \<^verbatim>\<open>integral_\<close>) with the pose \<open>(0, 0, 0)\<close>. In exact arithmetic its first control cycle
  finds the distance error \<open>sqrt 41\<close>, between \<open>6.403\<close> and \<open>6.404\<close>; the signal
  \<open>sqrt 41 + 0 + 0.05 * sqrt 41\<close>, between \<open>6.723\<close> and \<open>6.724\<close>; the heading error
  \<open>atan2 5 4\<close>, between \<open>0.896\<close> and \<open>0.8961\<close>, which the normalisation leaves as it is;
  the angular signal, four times that, between \<open>3.584\<close> and \<open>3.5844\<close>; and it publishes the
  linear speed \<open>2\<close> and the angular speed \<open>2\<close>. In binary64 the distance error is the double
  nearest to \<open>sqrt 41\<close>, \<open>6.4031242374328485\<close>; the signal is the double \<open>6.723280449304491\<close>;
  the heading error is a double between \<open>0.8959\<close> and \<open>0.8963\<close> and the angular signal one
  between \<open>3.583\<close> and \<open>3.585\<close>; and the cycle publishes \<open>2\<close> and \<open>2\<close> as well.
\<close>

theorem first_cycle_scenario:
  "distance_error real_arith (at_origin mem) = sqrt 41
   \<and> 6.403 < sqrt 41 \<and> sqrt 41 < 6.404
   \<and> pid_signal real_arith (at_origin mem) = sqrt 41 + 0 + 0.05 * sqrt 41
   \<and> 6.723 < pid_signal real_arith (at_origin mem)
   \<and> pid_signal real_arith (at_origin mem) < 6.724
   \<and> angle_error real_arith (at_origin mem) = atan2 5 4
   \<and> normalize_angle real_arith (atan2 5 4) = Some (atan2 5 4)
   \<and> 0.896 < atan2 5 4 \<and> atan2 5 4 < 0.8961
   \<and> 3.584 < 4 * atan2 5 4 \<and> 4 * atan2 5 4 < 3.5844
   \<and> control_loop real_arith (at_origin mem) =
        Some ((at_origin mem) \<lparr> integral := sqrt 41, prev_error := sqrt 41 \<rparr>,
              \<lparr> linear_x = 2, angular_z = 2 \<rparr>)
   \<and> distance_error b64_arith (at_origin_b64 mem') = round_b64 (sqrt 41)
   \<and> round_b64 (sqrt 41) = Fin (28161238212607 / 2 ^ 42)
   \<and> pid_signal b64_arith (at_origin_b64 mem') = Fin (3784870415774381 / 2 ^ 49)
   \<and> (\<exists>r v. angle_error b64_arith (at_origin_b64 mem') = Fin r
          \<and> 0.8959 \<le> r \<and> r \<le> 0.8963
          \<and> d_mul b64_arith (d_lit b64_arith 4.0) (Fin r) = Fin v
          \<and> 3.583 \<le> v \<and> v \<le> 3.585)
   \<and> control_loop b64_arith (at_origin_b64 mem') =
        Some ((at_origin_b64 mem') \<lparr> integral := Fin (28161238212607 / 2 ^ 42),
                                      prev_error := Fin (28161238212607 / 2 ^ 42) \<rparr>,
              \<lparr> linear_x = Fin 2, angular_z = Fin 2 \<rparr>)"
proof -
  have a: "atan2 5 4 = arctan (5 / 4)"
    by (simp add: atan2_def)
  have d: "6.403 < sqrt 41" "sqrt 41 < 6.404"
    using sqrt_41_bounds by simp_all
  have exact: "distance_error real_arith (at_origin mem) = sqrt 41
   \<and> 6.403 < sqrt 41 \<and> sqrt 41 < 6.404
   \<and> pid_signal real_arith (at_origin mem) = sqrt 41 + 0 + 0.05 * sqrt 41
   \<and> 6.723 < pid_signal real_arith (at_origin mem)
   \<and> pid_signal real_arith (at_origin mem) < 6.724
   \<and> angle_error real_arith (at_origin mem) = atan2 5 4
   \<and> normalize_angle real_arith (atan2 5 4) = Some (atan2 5 4)
   \<and> 0.896 < atan2 5 4 \<and> atan2 5 4 < 0.8961
   \<and> 3.584 < 4 * atan2 5 4 \<and> 4 * atan2 5 4 < 3.5844
   \<and> control_loop real_arith (at_origin mem) =
        Some ((at_origin mem) \<lparr> integral := sqrt 41, prev_error := sqrt 41 \<rparr>,
              \<lparr> linear_x = 2, angular_z = 2 \<rparr>)"
    using d at_origin_signal_bounds[of mem] atan2_5_4_bounds
    by (simp add: at_origin_cycle at_origin_distance at_origin_angle at_origin_signal
        wrapped_arctan_5_4 normalize_real a)
  have "distance_error b64_arith (at_origin_b64 mem') = round_b64 (sqrt 41)"
    by (simp only: at_origin_b64_distance round_b64_sqrt_41)
  moreover have "\<exists>r v. angle_error b64_arith (at_origin_b64 mem') = Fin r
          \<and> 0.8959 \<le> r \<and> r \<le> 0.8963
          \<and> d_mul b64_arith (d_lit b64_arith 4.0) (Fin r) = Fin v
          \<and> 3.583 \<le> v \<and> v \<le> 3.585"
    using at_origin_b64_angle_value[of mem'] by simp
  ultimately show ?thesis
    using exact round_b64_sqrt_41 at_origin_b64_signal[of mem'] at_origin_b64_cycle[of mem']
    by blast
qed

subsection \<open>The control signal and the controller state\<close>

text \<open>
  In every arithmetic, a control cycle that returns publishes as linear speed the clamped
  value of \<open>kp * distance_error + ki * integral + kd * (distance_error - prev_error)\<close>, taken
  on the node as it was before the cycle; and the node after the cycle has
  \<open>integral + distance_error\<close> in \<^verbatim>\<open>integral_\<close> and \<open>distance_error\<close> in \<^verbatim>\<open>prev_error_\<close>,
  whether the clamp changed the signal or not.
\<close>

lemma returning_cycle_update:
  assumes "control_loop A s = Some (s', msg)"
  shows "linear_x msg =
           clamp A (d_add A (d_add A (d_mul A (kp s) (distance_error A s))
                                     (d_mul A (ki s) (integral s)))
                            (d_mul A (kd s) (d_sub A (distance_error A s) (prev_error s))))
                   (d_neg A (d_lit A 2.0)) (d_lit A 2.0)
       \<and> integral s' = d_add A (integral s) (distance_error A s)
       \<and> prev_error s' = distance_error A s"
  using assms by (auto simp: control_loop_eq pid_signal_def split: option.splits)

text \<open>
  In exact arithmetic every control cycle returns, so that every cycle computes this signal
  and makes this update.
\<close>

lemma exact_cycle_update:
  "\<exists>s' msg. control_loop real_arith s = Some (s', msg)
      \<and> linear_x msg = clamp real_arith (pid_signal real_arith s) (- 2) 2
      \<and> integral s' = integral s + distance_error real_arith s
      \<and> prev_error s' = distance_error real_arith s"
  by (simp add: control_loop_real)

text \<open>
  In binary64 the control cycle returns, with this signal and this update, whenever the
  heading error before normalisation is a finite double of magnitude at most \<open>2\<^sup>5\<^sup>3\<close>.
\<close>

lemma bounded_cycle_update:
  assumes "b64_within (- (2 ^ 53)) (2 ^ 53) (angle_error b64_arith s)"
  shows "\<exists>s' msg. control_loop b64_arith s = Some (s', msg)
      \<and> linear_x msg = clamp b64_arith (pid_signal b64_arith s) (b64_neg (round_b64 2)) (round_b64 2)
      \<and> integral s' = b64_add (integral s) (distance_error b64_arith s)
      \<and> prev_error s' = distance_error b64_arith s"
proof -
  from normalize_b64_returns[OF assms]
  obtain a where "normalize_angle b64_arith (angle_error b64_arith s) = Some a" by blast
  then show ?thesis
    by (simp add: control_loop_eq b64_arith_simps)
qed

text \<open>
  C3. In binary64 not every control cycle reaches the signal and the update. The node
  \<open>far_heading\<close> holds finite doubles, and its cycle stays in the first normalisation loop
  (line 55 of the source), before \<^verbatim>\<open>control_signal\<close> is computed and \<^verbatim>\<open>integral_\<close> and
  \<^verbatim>\<open>prev_error_\<close> are written (lines 59 to 61): the execution of one timer expiry has no node
  after it. On the same messages exact arithmetic gives what the claim says: the distance
  error is \<open>1\<close>, the signal \<open>1 * 1 + 0 * 0 + 0.05 * (1 - 0)\<close>, and the node after the cycle has
  \<open>1\<close> in \<^verbatim>\<open>integral_\<close> and in \<^verbatim>\<open>prev_error_\<close>.
\<close>

theorem far_heading_skips_update:
  "finite_state far_heading
   \<and> run b64_arith far_heading [TimerTick] = None
   \<and> map_option fst (control_loop real_arith far_heading_exact)
       = Some (far_heading_exact \<lparr> integral := 1, prev_error := 1 \<rparr>)
   \<and> map_option (\<lambda>r. linear_x (snd r)) (control_loop real_arith far_heading_exact)
       = Some (1 * 1 + 0 * 0 + 0.05 * (1 - 0))"
proof -
  have f: "finite_state far_heading"
    unfolding finite_state_def far_heading_fields is_finite.simps
    by (intro conjI round_b64_0 round_b64_1 round_b64_3 round_b64_4 round_b64_5
        round_b64_kd_double round_b64_minus_two60)
  have "normalize_angle b64_arith (Fin (2 ^ 60)) = None"
    by (simp only: normalize_angle_def wrap_down_b64_two60 option.case)
  then have "control_loop b64_arith far_heading = None"
    by (simp only: control_loop_def Let_def far_heading_angle_error option.case)
  then have r: "run b64_arith far_heading [TimerTick] = None"
    by (simp only: run.simps option.case)
  have fields: "x_goal far_heading_exact = 4" "y_goal far_heading_exact = 5"
    "x_current far_heading_exact = 3" "y_current far_heading_exact = 5"
    "kp far_heading_exact = 1" "ki far_heading_exact = 0" "kd far_heading_exact = 0.05"
    "prev_error far_heading_exact = 0" "integral far_heading_exact = 0"
    by (simp_all add: far_heading_exact_def pose_callback_def TurtleNavigator_def
        real_arith_simps)
  have d: "distance_error real_arith far_heading_exact = 1"
    by (simp add: distance_error_def fields real_arith_simps)
  have p: "pid_signal real_arith far_heading_exact = 1 * 1 + 0 * 0 + 0.05 * (1 - 0)"
    by (simp add: pid_signal_def d fields real_arith_simps)
  have "map_option fst (control_loop real_arith far_heading_exact)
       = Some (far_heading_exact \<lparr> integral := 1, prev_error := 1 \<rparr>)"
    by (simp add: control_loop_real d fields)
  moreover have "map_option (\<lambda>r. linear_x (snd r)) (control_loop real_arith far_heading_exact)
       = Some (1 * 1 + 0 * 0 + 0.05 * (1 - 0))"
    unfolding p[symmetric] by (simp add: control_loop_real clamp_real p)
  ultimately show ?thesis
    using f r by blast
qed

text \<open>
  C6, as stated, fails in binary64 for large \<open>N\<close>. One unit short of the goal the distance
  error is \<open>1\<close> in every control cycle and \<^verbatim>\<open>integral_\<close> starts at zero. It counts the cycles up
  to \<open>2\<^sup>5\<^sup>3\<close>; there \<open>2\<^sup>5\<^sup>3 + 1\<close> rounds back to \<open>2\<^sup>5\<^sup>3\<close>, and \<^verbatim>\<open>integral_\<close> stays. After
  \<open>N = 2\<^sup>5\<^sup>4\<close> cycles it holds \<open>2\<^sup>5\<^sup>3\<close>, half of \<open>N * d\<close>.
\<close>

theorem integral_stagnates:
  "integral near_goal_b64 = Fin 0
   \<and> observes b64_arith (Fin 1) near_goal_b64 (replicate (2 ^ 54) TimerTick)
   \<and> ticks (replicate (2 ^ 54) TimerTick) = 2 ^ 54
   \<and> map_option integral (run b64_arith near_goal_b64 (replicate (2 ^ 54) TimerTick))
       = Some (Fin (2 ^ 53))
   \<and> (2::real) ^ 53 = 2 ^ 54 * 1 / 2"
proof -
  have "observes b64_arith (Fin 1) near_goal_b64 (replicate (2 ^ 54) TimerTick)"
    using near_goal_b64_observes[where i = "Fin 0" and p = "Fin 0" and n = "2 ^ 54"]
    by (simp only: near_goal_b64_self)
  moreover have "map_option integral (run b64_arith near_goal_b64 (replicate (2 ^ 54) TimerTick))
       = Some (Fin (2 ^ 53))"
    by (rule near_goal_b64_stagnates) simp
  moreover have "(2::real) ^ 53 = 2 ^ 54 * 1 / 2" by simp
  ultimately show ?thesis
    by (simp only: ticks_replicate near_goal_b64_fields)
qed

text \<open>
  C6, amended to at most \<open>2\<^sup>5\<^sup>3\<close> cycles. In any arithmetic: take an execution (timer
  expiries, with goal and pose messages in between) in which every control cycle returns and
  finds the same distance error \<open>d\<close>. At its end \<^verbatim>\<open>integral_\<close> is what it was at the start with
  \<open>d\<close> added once per control cycle, whatever the heading errors were: no message resets it
  and no angle enters it. In exact arithmetic every such execution runs to its end, and from
  \<^verbatim>\<open>integral_\<close> zero that is the number \<open>N\<close> of control cycles times \<open>d\<close>. In binary64, for a
  normal double \<open>d\<close>, \<open>1 \<le> N \<le> 2\<^sup>5\<^sup>3\<close> and \<open>N * d \<le> 2\<^sup>1\<^sup>0\<^sup>2\<^sup>2\<close>, it is a finite double within
  \<open>N\<^sup>2 * d * 2\<^sup>-\<^sup>5\<^sup>3\<close> of \<open>N * d\<close>: a relative error of at most \<open>N * 2\<^sup>-\<^sup>5\<^sup>3\<close>.
\<close>

theorem integral_after_cycles:
  "(observes A d s evs \<longrightarrow>
      (\<exists>s'. run A s evs = Some s'
           \<and> integral s' = ((\<lambda>x. d_add A x d) ^^ ticks evs) (integral s)))
   \<and> (observes real_arith c t evs' \<and> integral t = 0 \<longrightarrow>
      (\<exists>t'. run real_arith t evs' = Some t' \<and> integral t' = real (ticks evs') * c))
   \<and> (observes b64_arith (Fin e) u evs'' \<and> integral u = Fin 0
       \<and> is_finite (Fin e) \<and> 2 powi (- 1022) \<le> e
       \<and> 1 \<le> ticks evs'' \<and> ticks evs'' \<le> 2 ^ 53 \<and> real (ticks evs'') * e \<le> 2 ^ 1022 \<longrightarrow>
      (\<exists>u' i. run b64_arith u evs'' = Some u' \<and> integral u' = Fin i
           \<and> \<bar>i - real (ticks evs'') * e\<bar> \<le> (real (ticks evs''))\<^sup>2 * e / 2 ^ 53))"
proof -
  have "\<exists>u' i. run b64_arith u evs'' = Some u' \<and> integral u' = Fin i
           \<and> \<bar>i - real (ticks evs'') * e\<bar> \<le> (real (ticks evs''))\<^sup>2 * e / 2 ^ 53"
    if o: "observes b64_arith (Fin e) u evs''" and z: "integral u = Fin 0"
      and f: "is_finite (Fin e)" and n: "2 powi (- 1022) \<le> e"
      and t: "1 \<le> ticks evs''" "ticks evs'' \<le> 2 ^ 53" "real (ticks evs'') * e \<le> 2 ^ 1022"
  proof -
    from t(1) obtain k where k: "ticks evs'' = Suc k"
      by (cases "ticks evs''") simp_all
    from f have fe: "round_b64 e = Fin e" by simp
    from accumulate_bound[OF fe n, of k] t(2,3)
    obtain i where "((\<lambda>x. b64_add x (Fin e)) ^^ Suc k) (Fin 0) = Fin i"
      and "\<bar>i - real (Suc k) * e\<bar> \<le> (real (Suc k))\<^sup>2 * e / 2 ^ 53"
      unfolding k by blast
    with run_integral[OF o] show ?thesis
      unfolding k z by (auto simp: b64_arith_simps)
  qed
  then show ?thesis
    using run_integral[of A d s evs] run_real_integral[of c t evs'] by auto
qed

text \<open>
  Two control cycles in binary64; and in exact arithmetic two control cycles with a pose
  message in between, after which the distance error is \<open>sqrt 41\<close> again and the heading
  error is another.
\<close>

theorem integral_after_cycles_witness:
  "observes b64_arith (Fin (28161238212607 / 2 ^ 42))
     (at_origin_b64 \<lparr> pose_x = NaN, pose_y = NaN, pose_theta = NaN \<rparr>) [TimerTick, TimerTick]
   \<and> integral (at_origin_b64 \<lparr> pose_x = NaN, pose_y = NaN, pose_theta = NaN \<rparr>) = Fin 0
   \<and> is_finite (Fin (28161238212607 / 2 ^ 42)) \<and> 2 powi (- 1022) \<le> (28161238212607 / 2 ^ 42 :: real)
   \<and> ticks [TimerTick, TimerTick :: b64 event] = 2
   \<and> (\<exists>s'. run b64_arith (at_origin_b64 \<lparr> pose_x = NaN, pose_y = NaN, pose_theta = NaN \<rparr>)
              [TimerTick, TimerTick] = Some s'
          \<and> integral s' = Fin (28161238212607 / 2 ^ 41))
   \<and> (\<exists>s' i. run b64_arith (at_origin_b64 \<lparr> pose_x = NaN, pose_y = NaN, pose_theta = NaN \<rparr>)
              [TimerTick, TimerTick] = Some s'
          \<and> integral s' = Fin i
          \<and> \<bar>i - 2 * (28161238212607 / 2 ^ 42)\<bar> \<le> 2\<^sup>2 * (28161238212607 / 2 ^ 42) / 2 ^ 53)
   \<and> observes real_arith (sqrt 41) (at_origin \<lparr> pose_x = 7, pose_y = 8, pose_theta = 9 \<rparr>)
       [TimerTick, PoseMsg \<lparr> pose_x = 8, pose_y = 10, pose_theta = 1 \<rparr>, TimerTick]
   \<and> integral (at_origin \<lparr> pose_x = 7, pose_y = 8, pose_theta = 9 \<rparr>) = 0
   \<and> (\<exists>s'. run real_arith (at_origin \<lparr> pose_x = 7, pose_y = 8, pose_theta = 9 \<rparr>)
              [TimerTick, PoseMsg \<lparr> pose_x = 8, pose_y = 10, pose_theta = 1 \<rparr>, TimerTick]
            = Some s'
          \<and> integral s' = 2 * sqrt 41)"
proof -
  let ?s = "at_origin \<lparr> pose_x = 7, pose_y = 8, pose_theta = 9 \<rparr>"
  let ?evs = "[TimerTick, PoseMsg \<lparr> pose_x = 8, pose_y = 10, pose_theta = 1 \<rparr>, TimerTick]"
  let ?t = "at_origin_b64 \<lparr> pose_x = NaN, pose_y = NaN, pose_theta = NaN \<rparr>"
  let ?tt = "[TimerTick, TimerTick :: b64 event]"
  let ?d = "28161238212607 / 2 ^ 42 :: real"
  have o: "observes real_arith (sqrt 41) ?s ?evs"
    by (simp add: control_loop_real at_origin_distance)
       (simp add: distance_error_def pose_callback_def at_origin_simps real_arith_simps)
  have o': "observes b64_arith (Fin ?d) ?t ?tt"
    by (rule at_origin_b64_observes)
  have rd: "round_b64 ?d = Fin ?d"
    using round_b64_sqrt_41 by (rule round_b64_idem)
  then have a1: "b64_add (Fin 0) (Fin ?d) = Fin ?d"
    by simp
  have i: "((\<lambda>x. d_add b64_arith x (Fin ?d)) ^^ ticks ?tt) (integral ?t)
      = Fin (28161238212607 / 2 ^ 41)"
    by (simp only: ticks.simps funpow.simps comp_apply id_apply b64_arith_simps
        at_origin_b64_fields a1 round_b64_twice_sqrt_41)
  have z: "integral ?t = Fin 0" by (simp only: at_origin_b64_fields)
  have f: "is_finite (Fin ?d)" using rd by simp
  have n: "2 powi (- 1022) \<le> ?d" by (simp add: power_int_minus field_simps)
  have t: "ticks ?tt = 2" by simp
  have b: "real (ticks ?tt) * ?d \<le> 2 ^ 1022" unfolding t by simp
  note inst = integral_after_cycles[where A = b64_arith and d = "Fin ?d" and s = ?t
      and evs = ?tt and c = "sqrt 41" and t = ?s and evs' = ?evs
      and e = ?d and u = ?t and evs'' = ?tt]
  have 1: "\<exists>s'. run b64_arith ?t ?tt = Some s' \<and> integral s' = Fin (28161238212607 / 2 ^ 41)"
    using inst o' i by auto
  have 2: "\<exists>s' i. run b64_arith ?t ?tt = Some s' \<and> integral s' = Fin i
          \<and> \<bar>i - 2 * ?d\<bar> \<le> 2\<^sup>2 * ?d / 2 ^ 53"
    using inst o' z f n b unfolding t by simp
  have 3: "\<exists>s'. run real_arith ?s ?evs = Some s' \<and> integral s' = 2 * sqrt 41"
    using inst o by (simp add: at_origin_simps)
  from 1 2 3 o o' z f n t show ?thesis
    by (simp add: at_origin_simps)
qed

subsection \<open>The limits\<close>

text \<open>
  C4, as stated, fails in binary64, on messages of finite doubles. After the goal message
  \<^verbatim>\<open>{x: 2^600, y: 0}\<close> and the pose message \<^verbatim>\<open>{x: 0, y: 0, theta: 0}\<close> the square of
  \<^verbatim>\<open>error_x\<close> overflows and the distance error is \<open>+\<infinity>\<close>. The first control cycle publishes
  the limit \<open>2\<close> and stores \<open>+\<infinity>\<close> in \<^verbatim>\<open>integral_\<close> and \<^verbatim>\<open>prev_error_\<close>. In the second,
  \<^verbatim>\<open>ki_ * integral_\<close> is \<open>0.0 * \<infinity>\<close> and \<^verbatim>\<open>distance_error - prev_error_\<close> is \<open>\<infinity> - \<infinity>\<close>:
  the signal is a NaN, neither comparison of \<^verbatim>\<open>std::clamp\<close> holds of it, and the linear speed
  published is a NaN, which is not in \<open>[-2, 2]\<close>.
\<close>

theorem limits_fail_after_overflow:
  "is_finite (Fin (2 ^ 600))
   \<and> run b64_arith
        (TurtleNavigator b64_arith \<lparr> pose_x = Fin 0, pose_y = Fin 0, pose_theta = Fin 0 \<rparr>)
        [GoalMsg \<lparr> point_x = Fin (2 ^ 600), point_y = Fin 0 \<rparr>,
         PoseMsg \<lparr> pose_x = Fin 0, pose_y = Fin 0, pose_theta = Fin 0 \<rparr>,
         TimerTick]
      = Some (far_goal \<lparr> integral := PInf, prev_error := PInf \<rparr>)
   \<and> control_loop b64_arith (far_goal \<lparr> integral := PInf, prev_error := PInf \<rparr>)
      = Some (far_goal \<lparr> integral := PInf, prev_error := PInf \<rparr>,
              \<lparr> linear_x = NaN, angular_z = Fin 0 \<rparr>)
   \<and> \<not> b64_within (- 2) 2 NaN"
proof -
  have "run b64_arith
        (TurtleNavigator b64_arith \<lparr> pose_x = Fin 0, pose_y = Fin 0, pose_theta = Fin 0 \<rparr>)
        [GoalMsg \<lparr> point_x = Fin (2 ^ 600), point_y = Fin 0 \<rparr>,
         PoseMsg \<lparr> pose_x = Fin 0, pose_y = Fin 0, pose_theta = Fin 0 \<rparr>,
         TimerTick]
      = run b64_arith far_goal [TimerTick]"
    by (simp only: run.simps far_goal_def)
  also have "\<dots> = Some (far_goal \<lparr> integral := PInf, prev_error := PInf \<rparr>)"
    by (simp only: run.simps far_goal_cycles option.case prod.case)
  finally show ?thesis
    using round_b64_two600 by (simp add: far_goal_cycles)
qed

text \<open>
  C4, amended to nodes of finite numbers. The limits are the constants \<open>2.0\<close> of the source,
  \<^verbatim>\<open>max_linear_speed\<close> and \<^verbatim>\<open>max_angular_speed\<close>. In exact arithmetic every control cycle
  publishes a linear speed and an angular speed in \<open>[-2, 2]\<close>, and a signal beyond a limit is
  published as that limit (the angular signal is four times the normalised heading error). In
  binary64 the same holds of every control cycle that returns, on a node of finite doubles
  with the gains that the constructor sets: the speeds are finite doubles in \<open>[-2, 2]\<close>.
\<close>

theorem commands_within_limits:
  "(\<exists>s' msg. control_loop real_arith s = Some (s', msg)
      \<and> - 2 \<le> linear_x msg \<and> linear_x msg \<le> 2
      \<and> - 2 \<le> angular_z msg \<and> angular_z msg \<le> 2
      \<and> saturated real_arith (pid_signal real_arith s) (linear_x msg)
      \<and> saturated real_arith (4 * wrapped (angle_error real_arith s)) (angular_z msg))
   \<and> (finite_state t \<and> constructed_gains b64_arith t
       \<and> control_loop b64_arith t = Some (t', m) \<longrightarrow>
      b64_within (- 2) 2 (linear_x m) \<and> b64_within (- 2) 2 (angular_z m)
      \<and> saturated b64_arith (pid_signal b64_arith t) (linear_x m)
      \<and> (\<exists>a. normalize_angle b64_arith (angle_error b64_arith t) = Some a
            \<and> saturated b64_arith (d_mul b64_arith (d_lit b64_arith 4.0) a) (angular_z m)))"
proof -
  have "\<exists>s' msg. control_loop real_arith s = Some (s', msg)
      \<and> - 2 \<le> linear_x msg \<and> linear_x msg \<le> 2
      \<and> - 2 \<le> angular_z msg \<and> angular_z msg \<le> 2
      \<and> saturated real_arith (pid_signal real_arith s) (linear_x msg)
      \<and> saturated real_arith (4 * wrapped (angle_error real_arith s)) (angular_z msg)"
    by (simp add: control_loop_real saturated_clamp_real) (simp add: clamp_real)
  moreover have "finite_state t \<and> constructed_gains b64_arith t
       \<and> control_loop b64_arith t = Some (t', m) \<longrightarrow>
      b64_within (- 2) 2 (linear_x m) \<and> b64_within (- 2) 2 (angular_z m)
      \<and> saturated b64_arith (pid_signal b64_arith t) (linear_x m)
      \<and> (\<exists>a. normalize_angle b64_arith (angle_error b64_arith t) = Some a
            \<and> saturated b64_arith (d_mul b64_arith (d_lit b64_arith 4.0) a) (angular_z m))"
    using limits_hold_b64[of t t' m] by simp
  ultimately show ?thesis by blast
qed

text \<open>
  Both signals above the limits, in exact arithmetic and in binary64, and both below.
\<close>

theorem commands_within_limits_witness:
  "(\<exists>s' msg.
       control_loop real_arith (at_origin \<lparr> pose_x = 7, pose_y = 8, pose_theta = 9 \<rparr>)
         = Some (s', msg)
     \<and> 2 < pid_signal real_arith (at_origin \<lparr> pose_x = 7, pose_y = 8, pose_theta = 9 \<rparr>)
     \<and> 2 < 4 * wrapped
               (angle_error real_arith (at_origin \<lparr> pose_x = 7, pose_y = 8, pose_theta = 9 \<rparr>))
     \<and> linear_x msg = 2 \<and> angular_z msg = 2)
   \<and> (\<exists>s' msg.
       control_loop real_arith (near_goal \<lparr> theta_current := 1, prev_error := 1000 \<rparr>)
         = Some (s', msg)
     \<and> pid_signal real_arith (near_goal \<lparr> theta_current := 1, prev_error := 1000 \<rparr>) < - 2
     \<and> 4 * wrapped
           (angle_error real_arith (near_goal \<lparr> theta_current := 1, prev_error := 1000 \<rparr>)) < - 2
     \<and> linear_x msg = - 2 \<and> angular_z msg = - 2)
   \<and> finite_state (at_origin_b64 \<lparr> pose_x = NaN, pose_y = NaN, pose_theta = NaN \<rparr>)
   \<and> constructed_gains b64_arith
       (at_origin_b64 \<lparr> pose_x = NaN, pose_y = NaN, pose_theta = NaN \<rparr>)
   \<and> (\<exists>t' m.
       control_loop b64_arith (at_origin_b64 \<lparr> pose_x = NaN, pose_y = NaN, pose_theta = NaN \<rparr>)
         = Some (t', m)
     \<and> b64_less (Fin 2)
         (pid_signal b64_arith (at_origin_b64 \<lparr> pose_x = NaN, pose_y = NaN, pose_theta = NaN \<rparr>))
     \<and> linear_x m = Fin 2 \<and> b64_within (- 2) 2 (angular_z m))"
proof -
  let ?s = "at_origin \<lparr> pose_x = 7, pose_y = 8, pose_theta = 9 \<rparr>"
  let ?t = "near_goal \<lparr> theta_current := 1, prev_error := 1000 \<rparr>"
  let ?u = "at_origin_b64 \<lparr> pose_x = NaN, pose_y = NaN, pose_theta = NaN \<rparr>"
  have s1: "2 < pid_signal real_arith ?s"
    using at_origin_signal_bounds(1)[of "\<lparr> pose_x = 7, pose_y = 8, pose_theta = 9 \<rparr>"] by simp
  have s2: "2 < 4 * wrapped (angle_error real_arith ?s)"
    by (rule at_origin_angular_signal)
  have d: "distance_error real_arith ?t = 1"
    by (simp add: distance_error_def near_goal_simps real_arith_simps)
  have t1: "pid_signal real_arith ?t < - 2"
    by (simp add: pid_signal_def d near_goal_simps real_arith_simps)
  have a: "angle_error real_arith ?t = - 1"
    by (simp add: angle_error_def near_goal_simps real_arith_simps atan2_def)
  have "wrapped (- 1) = - 1"
    using pi_ge_two by (intro wrapped_id) simp_all
  then have t2: "4 * wrapped (angle_error real_arith ?t) < - 2"
    by (simp add: a)
  obtain u' m where cu: "control_loop b64_arith ?u = Some (u', m)"
    by (simp add: at_origin_b64_cycle)
  have fu: "finite_state ?u" by (rule at_origin_b64_finite)
  have gu: "constructed_gains b64_arith ?u" by (rule at_origin_b64_gains)
  have su: "b64_less (Fin 2) (pid_signal b64_arith ?u)"
    by (simp add: at_origin_b64_signal)
  from commands_within_limits[of ?s ?u u' m] s1 s2
  have hi: "\<exists>s' msg. control_loop real_arith ?s = Some (s', msg)
      \<and> linear_x msg = 2 \<and> angular_z msg = 2"
    by (auto simp: saturated_def real_arith_simps)
  from commands_within_limits[of ?t ?u u' m] t1 t2
  have lo: "\<exists>s' msg. control_loop real_arith ?t = Some (s', msg)
      \<and> linear_x msg = - 2 \<and> angular_z msg = - 2"
    by (auto simp: saturated_def real_arith_simps)
  from commands_within_limits[of ?s ?u u' m] fu gu cu su
  have b: "linear_x m = Fin 2 \<and> b64_within (- 2) 2 (angular_z m)"
    by (auto simp: saturated_def b64_arith_simps round_b64_2)
  from hi lo s1 s2 t1 t2 fu gu cu su b show ?thesis
    by blast
qed

subsection \<open>On the goal\<close>

text \<open>
  C7, as stated, fails in binary64. Two nodes of finite doubles with the same pose
  \<open>(+0, +0)\<close> and the same heading \<open>1\<close>, \<^verbatim>\<open>prev_error_\<close> and \<^verbatim>\<open>integral_\<close> zero: the goal of
  one is \<open>(+0, +0)\<close> and the goal of the other is \<open>(-0, +0)\<close>. In both the pose position
  compares equal to the goal, and both publish the linear speed \<open>0\<close>. The first publishes the
  angular speed \<open>-2\<close>: \<open>atan2(+0, +0)\<close> is \<open>0\<close> and the heading error is \<open>-1\<close>. In the second
  \<^verbatim>\<open>error_x\<close> is \<open>-0 - (+0) = -0\<close>, \<open>atan2(+0, -0)\<close> is \<open>\<pi>\<close>, the heading error is \<open>\<pi> - 1\<close>, and it
  publishes the angular speed \<open>2\<close>. The angular speed is not a function of the heading alone.
\<close>

theorem zero_sign_decides_angular:
  "b64_eq (x_current (on_zero_goal NZero)) (x_goal (on_zero_goal NZero))
   \<and> b64_eq (y_current (on_zero_goal NZero)) (y_goal (on_zero_goal NZero))
   \<and> b64_eq (x_current (on_zero_goal (Fin 0))) (x_goal (on_zero_goal (Fin 0)))
   \<and> b64_eq (y_current (on_zero_goal (Fin 0))) (y_goal (on_zero_goal (Fin 0)))
   \<and> prev_error (on_zero_goal NZero) = Fin 0 \<and> integral (on_zero_goal NZero) = Fin 0
   \<and> prev_error (on_zero_goal (Fin 0)) = Fin 0 \<and> integral (on_zero_goal (Fin 0)) = Fin 0
   \<and> theta_current (on_zero_goal NZero) = theta_current (on_zero_goal (Fin 0))
   \<and> finite_state (on_zero_goal NZero) \<and> finite_state (on_zero_goal (Fin 0))
   \<and> map_option snd (control_loop b64_arith (on_zero_goal (Fin 0)))
       = Some \<lparr> linear_x = Fin 0, angular_z = Fin (- 2) \<rparr>
   \<and> map_option snd (control_loop b64_arith (on_zero_goal NZero))
       = Some \<lparr> linear_x = Fin 0, angular_z = Fin 2 \<rparr>"
proof -
  have "finite_state (on_zero_goal NZero)" "finite_state (on_zero_goal (Fin 0))"
    unfolding finite_state_def on_zero_goal_fields is_finite.simps
    by (intro conjI TrueI round_b64_0 round_b64_1 round_b64_kd_double)+
  then show ?thesis
    by (simp add: on_zero_goal_fields on_zero_goal_cycles)
qed

text \<open>
  C7, amended: the position and the goal are the same doubles, and the heading is at most
  \<open>2\<^sup>5\<^sup>3\<close> in magnitude. In exact arithmetic a node whose position is the goal and whose
  \<^verbatim>\<open>prev_error_\<close> and \<^verbatim>\<open>integral_\<close> are zero publishes the linear speed \<open>0\<close> and is left as it
  is, and the angular speed it publishes is the clamped value of four times the normalised
  \<open>- theta_current\<close>: a function of the heading alone, whatever the goal and the gains are.
  In binary64, on a node of finite doubles whose position and goal are the same doubles and
  whose \<^verbatim>\<open>prev_error_\<close> and \<^verbatim>\<open>integral_\<close> are zeros, with a heading between \<open>-2\<^sup>5\<^sup>3\<close> and \<open>2\<^sup>5\<^sup>3\<close>:
  the control cycle returns, the linear speed it publishes is a zero, \<^verbatim>\<open>prev_error_\<close> and
  \<^verbatim>\<open>integral_\<close> are zero after it, and the angular speed is the clamped value of four times
  the normalised \<open>0 - theta_current\<close>.
\<close>

theorem zero_error_fixed_point:
  "(x_current s = x_goal s \<and> y_current s = y_goal s \<and> prev_error s = 0 \<and> integral s = 0
     \<longrightarrow> control_loop real_arith s =
           Some (s, \<lparr> linear_x = 0,
                      angular_z = clamp real_arith (4 * wrapped (- theta_current s)) (- 2) 2 \<rparr>))
   \<and> (finite_state t \<and> x_current t = x_goal t \<and> y_current t = y_goal t
       \<and> b64_eq (prev_error t) (Fin 0) \<and> b64_eq (integral t) (Fin 0)
       \<and> b64_within (- (2 ^ 53)) (2 ^ 53) (theta_current t)
     \<longrightarrow> (\<exists>a l. normalize_angle b64_arith (b64_sub (Fin 0) (theta_current t)) = Some a
            \<and> b64_eq l (Fin 0)
            \<and> control_loop b64_arith t =
                Some (t \<lparr> integral := Fin 0, prev_error := Fin 0 \<rparr>,
                      \<lparr> linear_x = l,
                        angular_z =
                          clamp b64_arith (b64_mul (Fin 4) a) (Fin (- 2)) (Fin 2) \<rparr>)))"
proof -
  have "\<exists>a l. normalize_angle b64_arith (b64_sub (Fin 0) (theta_current t)) = Some a
            \<and> b64_eq l (Fin 0)
            \<and> control_loop b64_arith t =
                Some (t \<lparr> integral := Fin 0, prev_error := Fin 0 \<rparr>,
                      \<lparr> linear_x = l,
                        angular_z =
                          clamp b64_arith (b64_mul (Fin 4) a) (Fin (- 2)) (Fin 2) \<rparr>)"
    if fin: "finite_state t" and pos: "x_current t = x_goal t" "y_current t = y_goal t"
      and zero: "b64_eq (prev_error t) (Fin 0)" "b64_eq (integral t) (Fin 0)"
      and th: "b64_within (- (2 ^ 53)) (2 ^ 53) (theta_current t)"
  proof -
    from fin have ft: "is_finite (theta_current t)" by (simp add: finite_state_def)
    have "b64_within (- (2 ^ 53)) (2 ^ 53) (b64_sub (Fin 0) (theta_current t))"
    proof (cases "theta_current t")
      case (Fin x)
      with ft have r: "round_b64 x = Fin x" by simp
      show ?thesis
      proof (cases "x = 0")
        case True
        then show ?thesis by (simp add: Fin b64_sub_def round_b64_0)
      next
        case False
        then have "round_b64 (- x) = Fin (- x)"
          using round_b64_minus[of x] r by simp
        then show ?thesis using th False by (simp add: Fin b64_sub_def)
      qed
    qed (use th in \<open>simp_all add: b64_sub_def round_b64_0\<close>)
    from normalize_b64_returns[OF this] obtain a
      where a: "normalize_angle b64_arith (b64_sub (Fin 0) (theta_current t)) = Some a" by blast
    from cycle_on_goal_b64[OF fin pos zero] a show ?thesis by simp
  qed
  then show ?thesis
    using cycle_on_goal[of s] by blast
qed

text \<open>
  On the goal with a heading of \<open>1/4\<close>: no linear speed, and the angular speed \<open>-1\<close>, in both
  arithmetics.
\<close>

theorem zero_error_fixed_point_witness:
  "x_current on_goal = x_goal on_goal \<and> y_current on_goal = y_goal on_goal
   \<and> prev_error on_goal = 0 \<and> integral on_goal = 0
   \<and> control_loop real_arith on_goal = Some (on_goal, \<lparr> linear_x = 0, angular_z = - 1 \<rparr>)
   \<and> finite_state on_goal_b64
   \<and> x_current on_goal_b64 = x_goal on_goal_b64 \<and> y_current on_goal_b64 = y_goal on_goal_b64
   \<and> b64_eq (prev_error on_goal_b64) (Fin 0) \<and> b64_eq (integral on_goal_b64) (Fin 0)
   \<and> b64_within (- (2 ^ 53)) (2 ^ 53) (theta_current on_goal_b64)
   \<and> (\<exists>a l. normalize_angle b64_arith (b64_sub (Fin 0) (theta_current on_goal_b64)) = Some a
          \<and> b64_eq l (Fin 0)
          \<and> control_loop b64_arith on_goal_b64 =
              Some (on_goal_b64 \<lparr> integral := Fin 0, prev_error := Fin 0 \<rparr>,
                    \<lparr> linear_x = l,
                      angular_z = clamp b64_arith (b64_mul (Fin 4) a) (Fin (- 2)) (Fin 2) \<rparr>))
   \<and> control_loop b64_arith on_goal_b64
       = Some (on_goal_b64, \<lparr> linear_x = Fin 0, angular_z = Fin (- 1) \<rparr>)"
proof -
  have w: "wrapped (- (1 / 4)) = - (1 / 4)"
    using pi_ge_two by (intro wrapped_id) simp_all
  have 1: "control_loop real_arith on_goal = Some (on_goal, \<lparr> linear_x = 0, angular_z = - 1 \<rparr>)"
    using zero_error_fixed_point[of on_goal on_goal_b64] w
    by (simp add: on_goal_simps clamp_real)
  have h: "finite_state on_goal_b64"
    "x_current on_goal_b64 = x_goal on_goal_b64" "y_current on_goal_b64 = y_goal on_goal_b64"
    "b64_eq (prev_error on_goal_b64) (Fin 0)" "b64_eq (integral on_goal_b64) (Fin 0)"
    "b64_within (- (2 ^ 53)) (2 ^ 53) (theta_current on_goal_b64)"
    using on_goal_b64_finite by (simp_all add: on_goal_b64_fields)
  have 2: "\<exists>a l. normalize_angle b64_arith (b64_sub (Fin 0) (theta_current on_goal_b64)) = Some a
          \<and> b64_eq l (Fin 0)
          \<and> control_loop b64_arith on_goal_b64 =
              Some (on_goal_b64 \<lparr> integral := Fin 0, prev_error := Fin 0 \<rparr>,
                    \<lparr> linear_x = l,
                      angular_z = clamp b64_arith (b64_mul (Fin 4) a) (Fin (- 2)) (Fin 2) \<rparr>)"
    using zero_error_fixed_point[of on_goal on_goal_b64] h by blast
  from 1 2 h on_goal_b64_cycle show ?thesis
    by (simp add: on_goal_simps)
qed

subsection \<open>Construction\<close>

text \<open>
  C5. The constructor does not initialise \<^verbatim>\<open>x_current_\<close>, \<^verbatim>\<open>y_current_\<close> and
  \<^verbatim>\<open>theta_current_\<close>: in any arithmetic the constructed node has the pose that its storage
  held. A control cycle before any pose message publishes \<open>(0, 0)\<close> on a node constructed over
  storage that held \<open>(4, 5, 0)\<close>, and \<open>(2, 2)\<close> on a node constructed over zeroed storage, in
  exact arithmetic and in binary64.
\<close>

theorem constructor_leaves_pose_to_storage:
  "x_current (TurtleNavigator A mem) = pose_x mem
   \<and> y_current (TurtleNavigator A mem) = pose_y mem
   \<and> theta_current (TurtleNavigator A mem) = pose_theta mem
   \<and> map_option snd
        (control_loop real_arith
          (TurtleNavigator real_arith \<lparr> pose_x = 4, pose_y = 5, pose_theta = 0 \<rparr>))
      = Some \<lparr> linear_x = 0, angular_z = 0 \<rparr>
   \<and> map_option snd
        (control_loop real_arith
          (TurtleNavigator real_arith \<lparr> pose_x = 0, pose_y = 0, pose_theta = 0 \<rparr>))
      = Some \<lparr> linear_x = 2, angular_z = 2 \<rparr>
   \<and> map_option snd
        (control_loop b64_arith
          (TurtleNavigator b64_arith \<lparr> pose_x = Fin 4, pose_y = Fin 5, pose_theta = Fin 0 \<rparr>))
      = Some \<lparr> linear_x = Fin 0, angular_z = Fin 0 \<rparr>
   \<and> map_option snd
        (control_loop b64_arith
          (TurtleNavigator b64_arith \<lparr> pose_x = Fin 0, pose_y = Fin 0, pose_theta = Fin 0 \<rparr>))
      = Some \<lparr> linear_x = Fin 2, angular_z = Fin 2 \<rparr>"
proof -
  let ?n = "TurtleNavigator real_arith \<lparr> pose_x = 4, pose_y = 5, pose_theta = 0 \<rparr>"
  let ?z = "TurtleNavigator real_arith \<lparr> pose_x = 0, pose_y = 0, pose_theta = 0 \<rparr>"
  let ?n' = "TurtleNavigator b64_arith \<lparr> pose_x = Fin 4, pose_y = Fin 5, pose_theta = Fin 0 \<rparr>"
  let ?z' = "TurtleNavigator b64_arith \<lparr> pose_x = Fin 0, pose_y = Fin 0, pose_theta = Fin 0 \<rparr>"
  have n: "x_current ?n = 4" "y_current ?n = 5" "x_goal ?n = 4" "y_goal ?n = 5"
    "theta_current ?n = 0" "prev_error ?n = 0" "integral ?n = 0"
    by (simp_all add: TurtleNavigator_def real_arith_simps)
  have "wrapped 0 = 0"
    by (simp add: wrapped_id)
  then have 1: "map_option snd (control_loop real_arith ?n) = Some \<lparr> linear_x = 0, angular_z = 0 \<rparr>"
    by (simp add: cycle_on_goal n clamp_real)
  have "?z = at_origin \<lparr> pose_x = 0, pose_y = 0, pose_theta = 0 \<rparr>"
    by (simp add: at_origin_def pose_callback_def TurtleNavigator_def)
  then have 2: "map_option snd (control_loop real_arith ?z) = Some \<lparr> linear_x = 2, angular_z = 2 \<rparr>"
    by (simp add: at_origin_cycle)
  have n': "x_goal ?n' = Fin 4" "y_goal ?n' = Fin 5" "x_current ?n' = Fin 4"
    "y_current ?n' = Fin 5" "theta_current ?n' = Fin 0" "kp ?n' = Fin 1" "ki ?n' = Fin 0"
    "kd ?n' = Fin (3602879701896397 / 2 ^ 56)" "prev_error ?n' = Fin 0" "integral ?n' = Fin 0"
    by (simp_all add: TurtleNavigator_def b64_arith_simps
        round_b64_0 round_b64_1 round_b64_4 round_b64_5 round_b64_kd)
  have fn: "finite_state ?n'"
    unfolding finite_state_def n' is_finite.simps
    by (intro conjI round_b64_0 round_b64_1 round_b64_4 round_b64_5 round_b64_kd_double)
  have nz: "normalize_angle b64_arith (Fin 0) = Some (Fin 0)"
    by (rule normalize_b64_id) simp_all
  have e: "b64_sub (Fin 4) (Fin 4) = Fin 0" "b64_sub (Fin 5) (Fin 5) = Fin 0"
    "b64_sub (Fin 0) (Fin 0) = Fin 0"
    by (simp_all add: b64_sub_Fin round_b64_0)
  have dn: "distance_error b64_arith ?n' = Fin 0"
    unfolding distance_error_def b64_arith_simps n' e
    by (simp add: round_b64_0)
  have gn: "constructed_gains b64_arith ?n'"
    by (simp add: constructed_gains_def TurtleNavigator_def)
  have pn: "pid_signal b64_arith ?n' = Fin 0"
    using dn gn by (rule pid_signal_on_goal_b64) (simp_all only: n')
  have "control_loop b64_arith ?n' =
      (case normalize_angle b64_arith (b64_sub (Fin 0) (theta_current ?n')) of
         None \<Rightarrow> None
       | Some a \<Rightarrow>
           Some (?n' \<lparr> integral := Fin 0, prev_error := Fin 0 \<rparr>,
                 \<lparr> linear_x = pid_signal b64_arith ?n',
                   angular_z = clamp b64_arith (b64_mul (Fin 4) a) (Fin (- 2)) (Fin 2) \<rparr>))"
    using fn by (rule cycle_on_goal_b64(2)) (simp_all only: n' b64_eq.simps)
  then have 3: "map_option snd (control_loop b64_arith ?n')
      = Some \<lparr> linear_x = Fin 0, angular_z = Fin 0 \<rparr>"
    unfolding pn n' e nz option.case
    by (simp add: clamp_def b64_arith_simps)
  have "?z' = at_origin_b64 \<lparr> pose_x = Fin 0, pose_y = Fin 0, pose_theta = Fin 0 \<rparr>"
    by (simp add: at_origin_b64_def pose_callback_def TurtleNavigator_def)
  then have 4: "map_option snd (control_loop b64_arith ?z')
      = Some \<lparr> linear_x = Fin 2, angular_z = Fin 2 \<rparr>"
    by (simp add: at_origin_b64_cycle)
  have "x_current (TurtleNavigator A mem) = pose_x mem
   \<and> y_current (TurtleNavigator A mem) = pose_y mem
   \<and> theta_current (TurtleNavigator A mem) = pose_theta mem"
    by (simp add: TurtleNavigator_def)
  with 1 2 3 4 show ?thesis
    by blast
qed

subsection \<open>Termination\<close>

text \<open>
  C8. In binary64, the control cycle of the node \<open>far_heading\<close>, whose members are all finite
  doubles, does not return: the heading error is \<open>2\<^sup>6\<^sup>0\<close>, the first normalisation loop
  subtracts \<^verbatim>\<open>2 * M_PI\<close> from it, and the difference rounds to \<open>2\<^sup>6\<^sup>0\<close> again.
\<close>

theorem control_loop_far_heading_hangs:
  "finite_state far_heading \<and> control_loop b64_arith far_heading = None"
proof
  show "finite_state far_heading"
    unfolding finite_state_def far_heading_fields is_finite.simps
    by (intro conjI round_b64_0 round_b64_1 round_b64_3 round_b64_4 round_b64_5
        round_b64_kd_double round_b64_minus_two60)
  have "normalize_angle b64_arith (Fin (2 ^ 60)) = None"
    by (simp only: normalize_angle_def wrap_down_b64_two60 option.case)
  then show "control_loop b64_arith far_heading = None"
    by (simp only: control_loop_def Let_def far_heading_angle_error option.case)
qed

subsection \<open>What a control cycle changes, and what the angular speed depends on\<close>

text \<open>
  C9. A control cycle that returns leaves the goal, the pose and the gains of the node as
  they were: the node after the cycle is the node before it with new contents in
  \<^verbatim>\<open>integral_\<close> and \<^verbatim>\<open>prev_error_\<close> only. The limits are local constants of
  \<^verbatim>\<open>control_loop\<close>, not state. This holds in every arithmetic.
\<close>

theorem control_loop_frame:
  assumes "control_loop A s = Some (s', msg)"
  shows "s' = s \<lparr> integral := integral s', prev_error := prev_error s' \<rparr>"
  using assms by (auto simp: control_loop_eq split: option.splits)

theorem control_loop_frame_witness:
  "(\<exists>s' msg.
      control_loop real_arith (at_origin \<lparr> pose_x = 7, pose_y = 8, pose_theta = 9 \<rparr>)
        = Some (s', msg)
    \<and> x_goal s' = 4 \<and> y_goal s' = 5
    \<and> x_current s' = 0 \<and> y_current s' = 0 \<and> theta_current s' = 0
    \<and> kp s' = 1 \<and> ki s' = 0 \<and> kd s' = 0.05)
   \<and> (\<exists>s' msg.
      control_loop b64_arith (at_origin_b64 \<lparr> pose_x = NaN, pose_y = NaN, pose_theta = NaN \<rparr>)
        = Some (s', msg)
    \<and> x_goal s' = Fin 4 \<and> y_goal s' = Fin 5
    \<and> x_current s' = Fin 0 \<and> y_current s' = Fin 0 \<and> theta_current s' = Fin 0
    \<and> kp s' = Fin 1 \<and> ki s' = Fin 0 \<and> kd s' = Fin (3602879701896397 / 2 ^ 56))"
proof -
  let ?s = "at_origin \<lparr> pose_x = 7, pose_y = 8, pose_theta = 9 \<rparr>"
  let ?t = "at_origin_b64 \<lparr> pose_x = NaN, pose_y = NaN, pose_theta = NaN \<rparr>"
  obtain s' msg where c: "control_loop real_arith ?s = Some (s', msg)"
    by (simp add: control_loop_real)
  from control_loop_frame[OF c]
  have "s' = ?s \<lparr> integral := integral s', prev_error := prev_error s' \<rparr>" .
  then have "x_goal s' = x_goal ?s" "y_goal s' = y_goal ?s" "x_current s' = x_current ?s"
    "y_current s' = y_current ?s" "theta_current s' = theta_current ?s"
    "kp s' = kp ?s" "ki s' = ki ?s" "kd s' = kd ?s"
    by (metis TurtleNavigator.select_convs TurtleNavigator.surjective
        TurtleNavigator.update_convs)+
  with c have exact: "\<exists>s' msg. control_loop real_arith ?s = Some (s', msg)
    \<and> x_goal s' = 4 \<and> y_goal s' = 5
    \<and> x_current s' = 0 \<and> y_current s' = 0 \<and> theta_current s' = 0
    \<and> kp s' = 1 \<and> ki s' = 0 \<and> kd s' = 0.05"
    by (simp add: at_origin_simps)
  obtain t' m where c': "control_loop b64_arith ?t = Some (t', m)"
    by (simp add: at_origin_b64_cycle)
  from control_loop_frame[OF c']
  have "t' = ?t \<lparr> integral := integral t', prev_error := prev_error t' \<rparr>" .
  then have "x_goal t' = x_goal ?t" "y_goal t' = y_goal ?t" "x_current t' = x_current ?t"
    "y_current t' = y_current ?t" "theta_current t' = theta_current ?t"
    "kp t' = kp ?t" "ki t' = ki ?t" "kd t' = kd ?t"
    by (metis TurtleNavigator.select_convs TurtleNavigator.surjective
        TurtleNavigator.update_convs)+
  with c' have "\<exists>s' msg. control_loop b64_arith ?t = Some (s', msg)
    \<and> x_goal s' = Fin 4 \<and> y_goal s' = Fin 5
    \<and> x_current s' = Fin 0 \<and> y_current s' = Fin 0 \<and> theta_current s' = Fin 0
    \<and> kp s' = Fin 1 \<and> ki s' = Fin 0 \<and> kd s' = Fin (3602879701896397 / 2 ^ 56)"
    by (simp only: at_origin_b64_fields) blast
  with exact show ?thesis by blast
qed

text \<open>
  C10. In every arithmetic, two nodes with the same goal and the same pose publish the same
  angular speed, whatever their \<^verbatim>\<open>integral_\<close> and \<^verbatim>\<open>prev_error_\<close> (and gains) are; and the
  cycle of one returns exactly when the cycle of the other does.
\<close>

theorem angular_independent_of_controller_state:
  assumes "x_goal s1 = x_goal s2" and "y_goal s1 = y_goal s2"
    and "x_current s1 = x_current s2" and "y_current s1 = y_current s2"
    and "theta_current s1 = theta_current s2"
  shows "map_option (\<lambda>r. angular_z (snd r)) (control_loop A s1) =
         map_option (\<lambda>r. angular_z (snd r)) (control_loop A s2)"
proof -
  have "angle_error A s1 = angle_error A s2"
    using assms by (simp add: angle_error_def)
  then show ?thesis
    by (simp add: control_loop_eq split: option.splits)
qed

text \<open>
  One unit short of the goal, the node before its first cycle and the node after it differ in
  \<^verbatim>\<open>prev_error_\<close> and \<^verbatim>\<open>integral_\<close> only: they publish the same angular speed and different
  linear speeds.
\<close>

theorem angular_independent_of_controller_state_witness:
  "\<exists>s1 m1 s2 m2.
      control_loop real_arith near_goal = Some (s1, m1)
    \<and> control_loop real_arith (near_goal \<lparr> prev_error := 1, integral := 1 \<rparr>) = Some (s2, m2)
    \<and> angular_z m1 = angular_z m2 \<and> linear_x m1 = 1.05 \<and> linear_x m2 = 1"
proof -
  let ?t = "near_goal \<lparr> prev_error := 1, integral := 1 \<rparr>"
  have d1: "distance_error real_arith near_goal = 1"
    by (simp add: distance_error_def near_goal_simps real_arith_simps)
  have d2: "distance_error real_arith ?t = 1"
    by (simp add: distance_error_def near_goal_simps real_arith_simps)
  have c1: "control_loop real_arith near_goal =
      Some (near_goal \<lparr> integral := 1, prev_error := 1 \<rparr>,
            \<lparr> linear_x = 1.05,
              angular_z =
                clamp real_arith (4 * wrapped (angle_error real_arith near_goal)) (- 2) 2 \<rparr>)"
    by (simp add: control_loop_real d1 pid_signal_def near_goal_simps real_arith_simps
        clamp_real)
  have c2: "control_loop real_arith ?t =
      Some (?t \<lparr> integral := 2, prev_error := 1 \<rparr>,
            \<lparr> linear_x = 1,
              angular_z = clamp real_arith (4 * wrapped (angle_error real_arith ?t)) (- 2) 2 \<rparr>)"
    by (simp add: control_loop_real d2 pid_signal_def near_goal_simps real_arith_simps
        clamp_real)
  have "map_option (\<lambda>r. angular_z (snd r)) (control_loop real_arith near_goal) =
        map_option (\<lambda>r. angular_z (snd r)) (control_loop real_arith ?t)"
    by (rule angular_independent_of_controller_state) simp_all
  then show ?thesis
    by (simp add: c1 c2)
qed

end
